theory Spec2Isabelle
  imports Main "HOL-Library.Word"
begin

unbundle bit_operations_syntax

section \<open>Fixed-capacity containers\<close>

type_synonym u8 = "8 word"
type_synonym u16 = "16 word"
type_synonym u32 = "32 word"
type_synonym u64 = "64 word"
type_synonym bytes = "u8 list"

subsection \<open>StaticVec (static\_vec.h)\<close>

text \<open>
  A \<open>StaticVec<T, SIZE>\<close> is a counter \<open>head\<close> and an array of \<open>SIZE\<close> slots; every
  observer (\<open>size\<close>, \<open>span\<close>, the iterators) sees the first \<open>head\<close> slots only. The model
  keeps these visible elements as a list and passes the template parameter \<open>SIZE\<close> to
  the operations that consult it. \<open>std::optional<T>\<close> is \<open>'a option\<close>: \<open>push_back\<close>
  answers \<open>None\<close> when the value was stored and gives the value back when the vector is
  full.
\<close>

definition push_back :: "nat \<Rightarrow> 'a \<Rightarrow> 'a list \<Rightarrow> 'a option \<times> 'a list" where
  "push_back SIZE val v = (if length v < SIZE then (None, v @ [val]) else (Some val, v))"

definition pop_back :: "'a list \<Rightarrow> 'a option \<times> 'a list" where
  "pop_back v = (if 0 < length v then (Some (last v), butlast v) else (None, v))"

definition clear :: "'a list \<Rightarrow> 'a list" where
  "clear v = []"

text \<open>
  The loop of \<open>push_slice\<close>: one \<open>push_back\<close> per element, left as soon as a push hands
  its value back.
\<close>

fun push_slice_loop :: "nat \<Rightarrow> 'a list \<Rightarrow> 'a list \<Rightarrow> 'a list" where
  "push_slice_loop SIZE [] v = v"
| "push_slice_loop SIZE (x # xs) v =
     (case push_back SIZE x v of
        (Some _, v') \<Rightarrow> v'
      | (None, v') \<Rightarrow> push_slice_loop SIZE xs v')"

text \<open>
  \<open>push_slice\<close> declares \<open>count = 0\<close>, runs the loop, and returns \<open>count\<close>, which no
  statement of the loop assigns.
\<close>

definition push_slice :: "nat \<Rightarrow> 'a list \<Rightarrow> 'a list \<Rightarrow> nat \<times> 'a list" where
  "push_slice SIZE xs v = (let count = 0 in (count, push_slice_loop SIZE xs v))"

subsection \<open>CircularBuffer (circular\_buffer.h)\<close>

text \<open>
  \<open>capacity\<close> is the template parameter \<open>SIZE\<close>, \<open>buf\<close> the array of \<open>SIZE\<close> bytes.
  \<open>size_t\<close> indices are natural numbers: they stay below \<open>SIZE\<close>, far from the width
  of \<open>size_t\<close>.
\<close>

record CircularBuffer =
  capacity :: nat
  buf :: bytes
  head :: nat
  tail :: nat

definition CircularBuffer_init :: "nat \<Rightarrow> CircularBuffer" where
  "CircularBuffer_init SIZE = \<lparr>capacity = SIZE, buf = replicate SIZE 0, head = 0, tail = 0\<rparr>"

definition push_head :: "u8 \<Rightarrow> CircularBuffer \<Rightarrow> u8 option \<times> CircularBuffer" where
  "push_head val cb =
     (let incr_head = (head cb + 1) mod capacity cb in
      if incr_head \<noteq> tail cb
      then (None, cb\<lparr>buf := (buf cb)[head cb := val], head := incr_head\<rparr>)
      else (Some val, cb))"

definition pop_tail :: "CircularBuffer \<Rightarrow> u8 option \<times> CircularBuffer" where
  "pop_tail cb =
     (if tail cb \<noteq> head cb
      then (Some (buf cb ! tail cb), cb\<lparr>tail := (tail cb + 1) mod capacity cb\<rparr>)
      else (None, cb))"

definition advance_head :: "CircularBuffer \<Rightarrow> CircularBuffer" where
  "advance_head cb =
     (let cb1 = cb\<lparr>head := (head cb + 1) mod capacity cb\<rparr> in
      if head cb1 = tail cb1 then cb1\<lparr>tail := (tail cb1 + 1) mod capacity cb1\<rparr> else cb1)"

definition getSize :: "CircularBuffer \<Rightarrow> nat" where
  "getSize cb =
     (if head cb > tail cb then head cb - tail cb
      else capacity cb - tail cb + head cb)"

definition getCapacity :: "CircularBuffer \<Rightarrow> nat" where
  "getCapacity cb = capacity cb"

text \<open>
  The receive interrupt stores the incoming byte in the slot \<open>getNextAddr()\<close>, that is
  \<open>buf[head]\<close>, and then calls \<open>advance_head\<close> (usart\_rx\_handler.cpp).
\<close>

definition receive_byte :: "u8 \<Rightarrow> CircularBuffer \<Rightarrow> CircularBuffer" where
  "receive_byte val cb = advance_head (cb\<lparr>buf := (buf cb)[head cb := val]\<rparr>)"

text \<open>The operations of a ring buffer, to speak about sequences of them.\<close>

datatype ring_op = Push_head u8 | Pop_tail | Advance_head

fun apply_ring_op :: "CircularBuffer \<Rightarrow> ring_op \<Rightarrow> CircularBuffer" where
  "apply_ring_op cb (Push_head val) = snd (push_head val cb)"
| "apply_ring_op cb Pop_tail = snd (pop_tail cb)"
| "apply_ring_op cb Advance_head = advance_head cb"

definition run_ring_ops :: "nat \<Rightarrow> ring_op list \<Rightarrow> CircularBuffer" where
  "run_ring_ops SIZE ops = foldl apply_ring_op (CircularBuffer_init SIZE) ops"

text \<open>
  The number of bytes written and not yet read or evicted: the indices from \<open>tail\<close> up
  to \<open>head\<close>, going round the ring.
\<close>

definition held :: "CircularBuffer \<Rightarrow> nat" where
  "held cb = (head cb + capacity cb - tail cb) mod capacity cb"

section \<open>The frame codec (frame.h, frame.cpp, bytes.h)\<close>

definition ESCAPE_BYTE :: u8 where
  "ESCAPE_BYTE = 0x1B"

definition BEGIN_FRAME_BYTE :: u8 where
  "BEGIN_FRAME_BYTE = 0x28"

definition END_FRAME_BYTE :: u8 where
  "END_FRAME_BYTE = 0x29"

text \<open>Each row is the byte to replace and the byte that follows \<open>ESCAPE_BYTE\<close> in its place.\<close>

definition ESCAPE_TABLE :: "(u8 \<times> u8) list" where
  "ESCAPE_TABLE = [(ESCAPE_BYTE, 0x41), (BEGIN_FRAME_BYTE, 0x42), (END_FRAME_BYTE, 0x43)]"

definition FRAME_MAX_SIZE :: nat where
  "FRAME_MAX_SIZE = 1280"

definition FRAME_MIN_SIZE :: nat where
  "FRAME_MIN_SIZE = 10"

definition FRAME_DATA_MAX_SIZE :: nat where
  "FRAME_DATA_MAX_SIZE = FRAME_MAX_SIZE - FRAME_MIN_SIZE - 2"

datatype DeserializeError =
    DeserializeOk
  | InvalidStartByte
  | InvalidEndByte
  | UnexpectedEOF
  | ExpectedEOF
  | CRC32MissMatch
  | InvalidEscapeSequence
  | DataTooBig
  | InvalidByte

datatype SerializeError = SerializeOk | FrameTooLongError | BufferTooSmall

text \<open>The field \<open>data\<close> is a \<open>StaticVec<uint8_t, FRAME_DATA_MAX_SIZE>\<close>.\<close>

record Frame =
  sender :: u8
  receiver :: u8
  data :: bytes

subsection \<open>Big-endian bytes (bytes.h)\<close>

definition to_be_bytes_u8 :: "u8 \<Rightarrow> bytes" where
  "to_be_bytes_u8 n = [n]"

definition to_be_bytes_u16 :: "u16 \<Rightarrow> bytes" where
  "to_be_bytes_u16 n = [ucast (drop_bit 8 n), ucast n]"

definition to_be_bytes_u32 :: "u32 \<Rightarrow> bytes" where
  "to_be_bytes_u32 n =
     [ucast (drop_bit 24 n), ucast (drop_bit 16 n), ucast (drop_bit 8 n), ucast n]"

definition from_be_bytes_u8 :: "bytes \<Rightarrow> u8" where
  "from_be_bytes_u8 arr = arr ! 0"

definition from_be_bytes_u16 :: "bytes \<Rightarrow> u16" where
  "from_be_bytes_u16 arr = push_bit 8 (ucast (arr ! 0)) OR ucast (arr ! 1)"

definition from_be_bytes_u32 :: "bytes \<Rightarrow> u32" where
  "from_be_bytes_u32 arr =
     push_bit 24 (ucast (arr ! 0)) OR push_bit 16 (ucast (arr ! 1)) OR
     push_bit 8 (ucast (arr ! 2)) OR ucast (arr ! 3)"

subsection \<open>Encoding\<close>

text \<open>
  The first parameter of the functions that write into an \<open>IStaticVec\<close> is the capacity
  of that vector. The results of the pushes inside \<open>encode_byte\<close> are dropped, as in
  the source.
\<close>

definition encode_byte :: "nat \<Rightarrow> u8 \<Rightarrow> bytes \<Rightarrow> bytes" where
  "encode_byte SIZE byte out =
     (case find (\<lambda>e. byte = fst e) ESCAPE_TABLE of
        Some e \<Rightarrow> snd (push_back SIZE (snd e) (snd (push_back SIZE ESCAPE_BYTE out)))
      | None \<Rightarrow> snd (push_back SIZE byte out))"

definition encode_bytes :: "nat \<Rightarrow> bytes \<Rightarrow> bytes \<Rightarrow> bytes" where
  "encode_bytes SIZE bs out = fold (encode_byte SIZE) bs out"

definition serialize_fields :: "nat \<Rightarrow> Frame \<Rightarrow> bytes \<Rightarrow> SerializeError \<times> bytes" where
  "serialize_fields SIZE frame out =
     (let out = encode_bytes SIZE (to_be_bytes_u8 (sender frame)) out;
          out = encode_bytes SIZE (to_be_bytes_u8 (receiver frame)) out;
          out = encode_bytes SIZE (to_be_bytes_u16 (of_nat (length (data frame)))) out;
          out = encode_bytes SIZE (data frame) out
      in (SerializeOk, out))"

subsection \<open>CRC32\<close>

text \<open>\<open>unsigned int\<close> has 32 bits. One turn of the inner loop, then the eight of them.\<close>

definition crc32_shift :: "u32 \<Rightarrow> u32" where
  "crc32_shift crc =
     (let msb = drop_bit 31 crc;
          crc = push_bit 1 crc
      in crc XOR ((0 - msb) AND 0x04C11DB7))"

definition crc32_byte :: "u8 \<Rightarrow> u32 \<Rightarrow> u32" where
  "crc32_byte b crc = (crc32_shift ^^ 8) (crc XOR push_bit 24 (ucast b))"

definition crc32_calculate :: "bytes \<Rightarrow> u32" where
  "crc32_calculate bs = fold crc32_byte bs 0xFFFFFFFF"

text \<open>
  The padding loop of \<open>Frame::crc32\<close> pushes zeroes into its
  \<open>StaticVec<uint8_t, FRAME_MAX_SIZE>\<close> while the size is not a multiple of 4. A push
  is rejected only by a full vector, whose size 1280 is a multiple of 4 and ends the
  loop, so the branch of a rejected push is never taken (lemma
  \<open>pad_loop_push_accepted\<close>); it
  is written as a return to keep the function total.
\<close>

function pad_loop :: "bytes \<Rightarrow> bytes" where
  "pad_loop b =
     (if length b mod 4 \<noteq> 0
      then (case push_back FRAME_MAX_SIZE 0 b of
              (None, b') \<Rightarrow> pad_loop b'
            | (Some _, b') \<Rightarrow> b')
      else b)"
  by pat_completeness auto
termination
  by (relation "measure (\<lambda>b. FRAME_MAX_SIZE - length b)")
     (auto simp: push_back_def split: if_splits)

declare pad_loop.simps [simp del]

definition crc32 :: "Frame \<Rightarrow> u32" where
  "crc32 frame =
     (let b = [];
          b = snd (push_slice FRAME_MAX_SIZE (to_be_bytes_u8 (sender frame)) b);
          b = snd (push_slice FRAME_MAX_SIZE (to_be_bytes_u8 (receiver frame)) b);
          b = snd (push_slice FRAME_MAX_SIZE (to_be_bytes_u16 (of_nat (length (data frame)))) b);
          b = snd (push_slice FRAME_MAX_SIZE (data frame) b);
          b = pad_loop b
      in crc32_calculate b)"

definition serialize_into :: "nat \<Rightarrow> Frame \<Rightarrow> bytes \<Rightarrow> SerializeError \<times> bytes" where
  "serialize_into SIZE frame out =
     (if length (data frame) > FRAME_DATA_MAX_SIZE then (FrameTooLongError, out)
      else
        let out = snd (push_back SIZE BEGIN_FRAME_BYTE out);
            (err, out) = serialize_fields SIZE frame out
        in if err \<noteq> SerializeOk then (err, out)
           else
             let crc = to_be_bytes_u32 (crc32 frame);
                 out = encode_bytes SIZE crc out;
                 (rejected, out) = push_back SIZE END_FRAME_BYTE out;
                 buffer_full = (rejected \<noteq> None)
             in if buffer_full then (BufferTooSmall, out) else (SerializeOk, out))"

subsection \<open>Decoding\<close>

text \<open>
  \<open>decode_byte\<close> answers the error, or the decoded byte with the number of bytes read
  (the source stores both through references, on success only).
\<close>

definition decode_byte :: "bytes \<Rightarrow> DeserializeError + u8 \<times> nat" where
  "decode_byte d =
     (if length d = 0 then Inl UnexpectedEOF
      else if d ! 0 = ESCAPE_BYTE then
        (if length d = 1 then Inl UnexpectedEOF
         else (case find (\<lambda>e. snd e = d ! 1) ESCAPE_TABLE of
                 Some e \<Rightarrow> Inr (fst e, 2)
               | None \<Rightarrow> Inl InvalidEscapeSequence))
      else if d ! 0 = BEGIN_FRAME_BYTE \<or> d ! 0 = END_FRAME_BYTE then Inl InvalidByte
      else Inr (d ! 0, 1))"

function decode_bytes :: "nat \<Rightarrow> bytes \<Rightarrow> bytes \<Rightarrow> DeserializeError \<times> bytes" where
  "decode_bytes SIZE d out =
     (if length d \<noteq> 0
      then (case decode_byte d of
              Inl err \<Rightarrow> (err, out)
            | Inr (decoded, read) \<Rightarrow>
                decode_bytes SIZE (drop read d) (snd (push_back SIZE decoded out)))
      else (DeserializeOk, out))"
  by pat_completeness auto
termination
  by (relation "measure (\<lambda>(SIZE, d, out). length d)")
     (auto simp: decode_byte_def split: if_splits option.splits)

declare decode_bytes.simps [simp del]

text \<open>The template \<open>deserialize<T>\<close> at the three types it is used with.\<close>

definition deserialize_u8 :: "bytes \<Rightarrow> nat \<Rightarrow> DeserializeError + u8 \<times> nat" where
  "deserialize_u8 d idx =
     (if idx + 1 > length d then Inl UnexpectedEOF
      else Inr (from_be_bytes_u8 (take 1 (drop idx d)), idx + 1))"

definition deserialize_u16 :: "bytes \<Rightarrow> nat \<Rightarrow> DeserializeError + u16 \<times> nat" where
  "deserialize_u16 d idx =
     (if idx + 2 > length d then Inl UnexpectedEOF
      else Inr (from_be_bytes_u16 (take 2 (drop idx d)), idx + 2))"

definition deserialize_u32 :: "bytes \<Rightarrow> nat \<Rightarrow> DeserializeError + u32 \<times> nat" where
  "deserialize_u32 d idx =
     (if idx + 4 > length d then Inl UnexpectedEOF
      else Inr (from_be_bytes_u32 (take 4 (drop idx d)), idx + 4))"

text \<open>
  The frame is the object the method runs on: every field is written as soon as it is
  parsed, so the frame is returned with the error.
\<close>

definition deserialize_from_decoded :: "Frame \<Rightarrow> bytes \<Rightarrow> DeserializeError \<times> Frame" where
  "deserialize_from_decoded frame decoded =
     (case deserialize_u8 decoded 0 of
        Inl err \<Rightarrow> (err, frame)
      | Inr (s, idx) \<Rightarrow>
     let frame = frame\<lparr>sender := s\<rparr> in
     (case deserialize_u8 decoded idx of
        Inl err \<Rightarrow> (err, frame)
      | Inr (r, idx) \<Rightarrow>
     let frame = frame\<lparr>receiver := r\<rparr> in
     (case deserialize_u16 decoded idx of
        Inl err \<Rightarrow> (err, frame)
      | Inr (data_len, idx) \<Rightarrow>
     if unat data_len > FRAME_DATA_MAX_SIZE then (DataTooBig, frame)
     else if idx + unat data_len \<ge> length decoded then (UnexpectedEOF, frame)
     else
       let frame = frame\<lparr>data := clear (data frame)\<rparr>;
           frame = frame\<lparr>data := snd (push_slice FRAME_DATA_MAX_SIZE
                                     (take (unat data_len) (drop idx decoded)) (data frame))\<rparr>;
           idx = idx + unat data_len
       in (case deserialize_u32 decoded idx of
             Inl err \<Rightarrow> (err, frame)
           | Inr (crc, idx) \<Rightarrow>
               if idx \<noteq> length decoded then (ExpectedEOF, frame)
               else if crc \<noteq> crc32 frame then (CRC32MissMatch, frame)
               else (DeserializeOk, frame)))))"

text \<open>\<open>Frame::deserialize_from\<close> on a span of encoded bytes.\<close>

definition deserialize_from :: "Frame \<Rightarrow> bytes \<Rightarrow> DeserializeError \<times> Frame" where
  "deserialize_from frame encoded =
     (if length encoded < FRAME_MIN_SIZE then (UnexpectedEOF, frame)
      else if encoded ! 0 \<noteq> BEGIN_FRAME_BYTE then (InvalidStartByte, frame)
      else if encoded ! (length encoded - 1) \<noteq> END_FRAME_BYTE then (InvalidEndByte, frame)
      else
        let (err, decoded) = decode_bytes FRAME_MAX_SIZE (butlast (tl encoded)) []
        in if err \<noteq> DeserializeOk then (err, frame)
           else deserialize_from_decoded frame decoded)"

subsection \<open>Decoding out of a ring buffer\<close>

text \<open>
  The loop of \<open>Frame::deserialize_from(ICircularBuffer&)\<close>. \<open>b\<close>, \<open>h\<close> and \<open>cap\<close> are
  the array, the adjusted head and the capacity; \<open>decoded\<close> is a
  \<open>StaticVec<uint8_t, FRAME_MAX_SIZE - 2>\<close>. It answers the error of an early return,
  or the index and the decoded bytes with which the loop is left (by its condition or by
  \<open>break\<close>). Every turn that goes on has pushed one byte into \<open>decoded\<close>, which bounds
  the number of turns.
\<close>

function circular_decode_loop ::
  "bytes \<Rightarrow> nat \<Rightarrow> nat \<Rightarrow> nat \<Rightarrow> bytes \<Rightarrow> DeserializeError + nat \<times> bytes" where
  "circular_decode_loop b h cap idx decoded =
     (if idx \<noteq> h then
        (let window = [b ! idx, b ! ((idx + 1) mod cap)] in
         if b ! idx = END_FRAME_BYTE then Inr (idx, decoded)
         else (case decode_byte window of
                 Inl err \<Rightarrow> Inl err
               | Inr (x, read) \<Rightarrow>
                   (case push_back (FRAME_MAX_SIZE - 2) x decoded of
                      (Some _, _) \<Rightarrow> Inl DataTooBig
                    | (None, decoded') \<Rightarrow>
                        circular_decode_loop b h cap ((idx + read) mod cap) decoded')))
      else Inr (idx, decoded))"
  by pat_completeness auto
termination
  by (relation "measure (\<lambda>(b, h, cap, idx, decoded). FRAME_MAX_SIZE - 2 - length decoded)")
     (auto simp: push_back_def split: if_splits)

declare circular_decode_loop.simps [simp del]

definition deserialize_from_circular ::
  "Frame \<Rightarrow> CircularBuffer \<Rightarrow> DeserializeError \<times> Frame" where
  "deserialize_from_circular frame cb =
     (if buf cb ! tail cb \<noteq> BEGIN_FRAME_BYTE then (InvalidStartByte, frame)
      else if getSize cb < FRAME_MIN_SIZE then (UnexpectedEOF, frame)
      else
        let t = tail cb;
            h = (if head cb \<noteq> 0 then head cb else getCapacity cb) - 1;
            cap = getCapacity cb;
            idx = (t + 1) mod cap
        in (case circular_decode_loop (buf cb) h cap idx [] of
              Inl err \<Rightarrow> (err, frame)
            | Inr (idx, decoded) \<Rightarrow>
                if buf cb ! idx = END_FRAME_BYTE then deserialize_from_decoded frame decoded
                else (UnexpectedEOF, frame)))"

section \<open>Frame extraction and command dispatch (command\_handler.cpp)\<close>

definition LOCAL_ID :: u8 where
  "LOCAL_ID = 100"

text \<open>
  \<open>GetFrame\<close> disables the interrupts on entry and enables them again before each of its
  returns, so the receive interrupt cannot run in between and the function is a
  sequential step on the ring buffer. Its two scanning loops end only because the index
  reaches \<open>head\<close> or a delimiter, so they are partial functions: \<open>None\<close> is a loop that
  never ends.
\<close>

partial_function (option) skip_to_begin :: "bytes \<Rightarrow> nat \<Rightarrow> nat \<Rightarrow> nat \<Rightarrow> nat option" where
  "skip_to_begin b h cap t =
     (if b ! t \<noteq> BEGIN_FRAME_BYTE \<and> t \<noteq> h
      then skip_to_begin b h cap ((t + 1) mod cap)
      else Some t)"

text \<open>
  The second loop answers \<open>Inl idx\<close> when it returns from inside, at another
  \<open>BEGIN_FRAME_BYTE\<close>, and \<open>Inr idx\<close> when its condition ends it.
\<close>

partial_function (option) scan_for_end ::
  "bytes \<Rightarrow> nat \<Rightarrow> nat \<Rightarrow> nat \<Rightarrow> (nat + nat) option" where
  "scan_for_end b h cap idx =
     (if idx \<noteq> h \<and> b ! idx \<noteq> END_FRAME_BYTE
      then (if b ! idx = BEGIN_FRAME_BYTE then Some (Inl idx)
            else scan_for_end b h cap ((idx + 1) mod cap))
      else Some (Inr idx))"

text \<open>
  A default-constructed \<open>Frame\<close>: an empty \<open>data\<close>; \<open>sender\<close> and \<open>receiver\<close> are not
  initialised by the source and are taken as 0 (a successful deserialization writes
  both).
\<close>

definition Frame_default :: Frame where
  "Frame_default = \<lparr>sender = 0, receiver = 0, data = []\<rparr>"

definition GetFrame :: "CircularBuffer \<Rightarrow> (Frame option \<times> CircularBuffer) option" where
  "GetFrame cb =
     (let cap = getCapacity cb in
      case skip_to_begin (buf cb) (head cb) cap (tail cb) of
        None \<Rightarrow> None
      | Some t \<Rightarrow>
          let cb = cb\<lparr>tail := t\<rparr> in
          if tail cb = head cb then Some (None, cb)
          else
            (case scan_for_end (buf cb) (head cb) cap ((tail cb + 1) mod cap) of
               None \<Rightarrow> None
             | Some (Inl idx) \<Rightarrow> Some (None, cb\<lparr>tail := idx\<rparr>)
             | Some (Inr idx) \<Rightarrow>
                 if head cb = idx \<or> buf cb ! idx \<noteq> END_FRAME_BYTE then Some (None, cb)
                 else
                   let (err, frame) = deserialize_from_circular Frame_default cb;
                       cb = cb\<lparr>tail := (idx + 1) mod cap\<rparr>
                   in if err = DeserializeOk then Some (Some frame, cb)
                      else Some (None, cb)))"

subsection \<open>Parsing\<close>

text \<open>
  \<open>Split\<close> calls \<open>callback\<close> on each chunk between delimiters; the callback of the
  source writes into a captured object, here the state \<open>st\<close> it transforms.
\<close>

function Split :: "'a list \<Rightarrow> 'a \<Rightarrow> ('a list \<Rightarrow> 's \<Rightarrow> 's) \<Rightarrow> 's \<Rightarrow> 's" where
  "Split s delim callback st =
     (let found = dropWhile (\<lambda>x. x \<noteq> delim) s;
          st = callback (takeWhile (\<lambda>x. x \<noteq> delim) s) st
      in if found = [] then st
         else Split (tl found) delim callback st)"
  by pat_completeness auto
termination
proof (relation "measure (\<lambda>(s, delim, callback, st). length s)")
  show "wf (measure (\<lambda>(s, delim, callback, st). length s))"
    by simp
next
  fix s :: "'a list" and delim :: 'a and callback :: "'a list \<Rightarrow> 's \<Rightarrow> 's"
    and st x :: 's and xa :: "'a list"
  assume xa: "xa = dropWhile (\<lambda>x. x \<noteq> delim) s" and ne: "xa \<noteq> []"
  have "length xa \<le> length s"
    unfolding xa by (rule length_dropWhile_le)
  moreover from ne have "length (tl xa) < length xa"
    by (cases xa) simp_all
  ultimately have "length (tl xa) < length s"
    by simp
  then show "((tl xa, delim, callback, x), s, delim, callback, st)
      \<in> measure (\<lambda>(s, delim, callback, st). length s)"
    by simp
qed

declare Split.simps [simp del]

record ParsedCommand =
  args :: "bytes list"

definition ParseCommands :: "bytes \<Rightarrow> ParsedCommand option" where
  "ParseCommands d =
     (let parsed = Split d 0x20
                     (\<lambda>arg parsed. if length arg > 0
                                    then parsed\<lparr>args := args parsed @ [arg]\<rparr>
                                    else parsed)
                     \<lparr>args = []\<rparr>
      in if length (args parsed) > 0 then Some parsed else None)"

subsection \<open>Device state, timer and responses (command\_handler.h, error\_codes.h)\<close>

record DeviceState =
  dutyCycles :: "u32 list"
  userDutyCycles :: "u8 list"
  isPwmGenerated :: bool

text \<open>
  What the handlers reach of the machine: \<open>gDeviceState\<close>; of the timer \<open>htim2\<close> the
  auto-reload register \<open>ARR\<close> and the counter \<open>CNT\<close>; the buffer the PWM DMA transfer
  was started with (\<open>None\<close> when it is stopped); and the value of
  \<open>HAL_RCC_GetPCLK1Freq()\<close>. The HAL itself is not part of the sources.
\<close>

record Machine =
  gDeviceState :: DeviceState
  ARR :: u32
  CNT :: u32
  pwm_dma :: "u32 list option"
  PCLK1Freq :: u32

definition DeviceState_init :: DeviceState where
  "DeviceState_init = \<lparr>dutyCycles = [0], userDutyCycles = [], isPwmGenerated = False\<rparr>"

definition TIMER_FREQ :: "Machine \<Rightarrow> u32" where
  "TIMER_FREQ m = PCLK1Freq m * 2"

text \<open>The bytes of a string literal.\<close>

definition bytes_of :: "string \<Rightarrow> bytes" where
  "bytes_of s = map of_char s"

text \<open>
  \<open>kUnknownCommand\<close> and \<open>kInvalidArgument\<close> are \<open>std::string_view\<close> objects; the
  constants after them are \<open>const char*\<close>.
\<close>

definition kUnknownCommand :: string where "kUnknownCommand = ''UNKNOWN_COMMAND''"
definition kInvalidArgument :: string where "kInvalidArgument = ''INVALID_ARGUMENT''"
definition kPwmOn :: string where "kPwmOn = ''PWM_ON''"
definition kPwmOff :: string where "kPwmOff = ''PWM_OFF''"
definition kFreqChanged :: string where "kFreqChanged = ''FREQ_CHANGED''"
definition kDutyCyclesChanged :: string where "kDutyCyclesChanged = ''DUTY_CYCLES_CHANGED''"
definition kInvalidFrequency :: string where "kInvalidFrequency = ''INVALID_FREQUENCY''"
definition kInvalidDutyCycle :: string where "kInvalidDutyCycle = ''INVALID_DUTY_CYCLE''"
definition kStatusResp :: string where "kStatusResp = ''STATUS_RESP''"

text \<open>
  What C++ leaves undefined and the handlers can reach: a division by zero, an index
  past the end of a vector or span, and a \<open>%s\<close> conversion whose argument is not a
  \<open>char*\<close>.
\<close>

datatype fault = DivisionByZero | OutOfBounds | FormatMismatch

definition udiv32 :: "u32 \<Rightarrow> u32 \<Rightarrow> fault + u32" where
  "udiv32 a b = (if b = 0 then Inl DivisionByZero else Inr (a div b))"

subsection \<open>Formatting and number parsing (commands.cpp)\<close>

text \<open>
  \<open>Printf\<close> appends the formatted text, without the terminating NUL, to \<open>ret\<close>; the
  callers below pass the text already formatted. \<open>%d\<close> prints its 32-bit argument as a
  signed decimal number.
\<close>

definition Printf :: "bytes \<Rightarrow> string \<Rightarrow> bytes" where
  "Printf ret formatted = ret @ bytes_of formatted"

text \<open>
  \<open>Printf(ret, "%s", sv)\<close> with a \<open>std::string_view\<close> object \<open>sv\<close>: the object goes
  through the C variable arguments and \<open>vsnprintf\<close> reads a \<open>char*\<close> where it lies, which
  is undefined. The two handlers that answer \<open>kInvalidArgument\<close> call it so.
\<close>

definition Printf_string_view :: "bytes \<Rightarrow> string \<Rightarrow> fault + bytes" where
  "Printf_string_view ret sv = Inl FormatMismatch"

fun decimal :: "nat \<Rightarrow> string" where
  "decimal n = (if n < 10 then [char_of (48 + n)] else decimal (n div 10) @ [char_of (48 + n mod 10)])"

declare decimal.simps [simp del]

definition fmt_d :: "u32 \<Rightarrow> string" where
  "fmt_d v = (if sint v < 0 then CHR ''-'' # decimal (nat (- sint v)) else decimal (nat (sint v)))"

text \<open>
  \<open>std::from_chars\<close> for \<open>std::uint32_t\<close>, base 10, as the C++ standard describes it: it
  reads the longest prefix of decimal digits (no sign, no white space); without a digit
  the error is \<open>invalid_argument\<close> and the pointer is the start; when the number does not
  fit 32 bits the error is \<open>result_out_of_range\<close> and the pointer is behind the digits;
  the value is written on success only. The answer is the offset of the pointer, the
  error and the value.
\<close>

datatype errc = errc_none | invalid_argument | result_out_of_range

definition is_digit :: "u8 \<Rightarrow> bool" where
  "is_digit c = (0x30 \<le> c \<and> c \<le> 0x39)"

definition digits_value :: "bytes \<Rightarrow> nat" where
  "digits_value ds = foldl (\<lambda>acc c. acc * 10 + (unat c - 48)) 0 ds"

definition from_chars :: "bytes \<Rightarrow> u32 \<Rightarrow> nat \<times> errc \<times> u32" where
  "from_chars arg val =
     (let ds = takeWhile is_digit arg in
      if ds = [] then (0, invalid_argument, val)
      else if digits_value ds \<ge> 2 ^ 32 then (length ds, result_out_of_range, val)
      else (length ds, errc_none, of_nat (digits_value ds)))"

subsection \<open>The handlers (commands.cpp)\<close>

definition StartPWM :: "Machine \<Rightarrow> Machine" where
  "StartPWM m =
     (let m = m\<lparr>gDeviceState := (gDeviceState m)\<lparr>isPwmGenerated := True\<rparr>\<rparr>
      in m\<lparr>pwm_dma := Some (dutyCycles (gDeviceState m))\<rparr>)"

definition StopPWM :: "Machine \<Rightarrow> Machine" where
  "StopPWM m =
     (let m = m\<lparr>gDeviceState := (gDeviceState m)\<lparr>isPwmGenerated := False\<rparr>\<rparr>
      in m\<lparr>pwm_dma := None\<rparr>)"

definition SetArr :: "u32 \<Rightarrow> Machine \<Rightarrow> Machine" where
  "SetArr arr m = m\<lparr>ARR := arr - 1, CNT := 0\<rparr>"

text \<open>
  A handler takes the response buffer, the arguments (\<open>args[0]\<close> is the command name)
  and the machine, and answers the new buffer and machine, or a fault.
\<close>

type_synonym handler = "bytes \<Rightarrow> bytes list \<Rightarrow> Machine \<Rightarrow> fault + bytes \<times> Machine"

definition CmdPwmOn :: handler where
  "CmdPwmOn ret as m =
     (let m = (if \<not> isPwmGenerated (gDeviceState m) then StartPWM m else m)
      in Inr (Printf ret kPwmOn, m))"

definition CmdPwmOff :: handler where
  "CmdPwmOff ret as m =
     (let m = (if isPwmGenerated (gDeviceState m) then StopPWM m else m)
      in Inr (Printf ret kPwmOff, m))"

text \<open>\<open>static_cast<std::uint64_t>(x) * arr / 100\<close>, stored into a 32-bit element.\<close>

definition scale :: "u64 \<Rightarrow> u32 \<Rightarrow> u32" where
  "scale x arr = ucast (x * ucast arr div 100)"

text \<open>
  The loop of \<open>CmdSetFreq\<close> that recomputes \<open>dutyCycles[i]\<close> for every index \<open>i\<close> of
  \<open>userDutyCycles\<close>; \<open>us\<close> are the user values from index \<open>i\<close> on.
\<close>

fun update_duty_cycles :: "u8 list \<Rightarrow> nat \<Rightarrow> u32 \<Rightarrow> u32 list \<Rightarrow> fault + u32 list" where
  "update_duty_cycles [] i arr dcs = Inr dcs"
| "update_duty_cycles (u # us) i arr dcs =
     (if i < length dcs
      then update_duty_cycles us (Suc i) arr (dcs[i := scale (ucast u) arr])
      else Inl OutOfBounds)"

definition CmdSetFreq :: handler where
  "CmdSetFreq ret as m =
     (if length as \<le> 1 then Inl OutOfBounds
      else
        let arg = as ! 1;
            (ptr, ec, val) = from_chars arg 0
        in if ec \<noteq> errc_none \<or> ptr \<noteq> length arg then
             (case Printf_string_view ret kInvalidArgument of
                Inl f \<Rightarrow> Inl f
              | Inr ret \<Rightarrow> Inr (ret, m))
           else
             let restoreGeneration = False in
             (case udiv32 (TIMER_FREQ m) val of
                Inl f \<Rightarrow> Inl f
              | Inr arr \<Rightarrow>
                  if arr = 0 \<or> val = 0 then Inr (Printf ret kInvalidFrequency, m)
                  else
                    let (m, restoreGeneration) =
                          (if isPwmGenerated (gDeviceState m) then (StopPWM m, True)
                           else (m, restoreGeneration));
                        m = SetArr arr m
                    in (case update_duty_cycles (userDutyCycles (gDeviceState m)) 0 arr
                               (dutyCycles (gDeviceState m)) of
                          Inl f \<Rightarrow> Inl f
                        | Inr dcs \<Rightarrow>
                            let m = m\<lparr>gDeviceState := (gDeviceState m)\<lparr>dutyCycles := dcs\<rparr>\<rparr>;
                                m = (if restoreGeneration then StartPWM m else m)
                            in Inr (Printf ret (kFreqChanged @ '' '' @ fmt_d val), m))))"

text \<open>
  The first loop of \<open>CmdSetDutyCycles\<close>: every argument after the name is parsed; at
  the first that is not a whole 32-bit decimal number the handler goes to its
  \<open>kInvalidArgument\<close> answer (\<open>None\<close>).
\<close>

fun parse_params :: "bytes list \<Rightarrow> u32 list \<Rightarrow> u32 list option" where
  "parse_params [] params = Some params"
| "parse_params (arg # rest) params =
     (let (ptr, ec, val) = from_chars arg 0
      in if ec \<noteq> errc_none \<or> ptr \<noteq> length arg then None
         else parse_params rest (params @ [val]))"

text \<open>
  \<open>std::any_of\<close> with the lambda of the source: it appends to both vectors before it
  tests the value, and stops at the first value for which the test holds.
\<close>

fun any_invalid :: "u32 list \<Rightarrow> u32 \<Rightarrow> u32 list \<times> u8 list \<Rightarrow> bool \<times> u32 list \<times> u8 list" where
  "any_invalid [] arr (dcs, udcs) = (False, dcs, udcs)"
| "any_invalid (dutyCycle # rest) arr (dcs, udcs) =
     (let udcs = udcs @ [ucast dutyCycle];
          dcs = dcs @ [scale (ucast dutyCycle) arr]
      in if (dutyCycle < 0) \<or> (dutyCycle > 100) then (True, dcs, udcs)
         else any_invalid rest arr (dcs, udcs))"

definition CmdSetDutyCycles :: handler where
  "CmdSetDutyCycles ret as m =
     (case parse_params (drop 1 as) [] of
        None \<Rightarrow>
          (case Printf_string_view ret kInvalidArgument of
             Inl f \<Rightarrow> Inl f
           | Inr ret \<Rightarrow> Inr (ret, m))
      | Some params \<Rightarrow>
          let arr = ARR m + 1;
              (invalidDutyCycle, dcs, udcs) = any_invalid params arr ([], [])
          in if \<not> invalidDutyCycle then
               let m = (if isPwmGenerated (gDeviceState m)
                        then StartPWM ((StopPWM m)\<lparr>gDeviceState :=
                               (gDeviceState (StopPWM m))\<lparr>dutyCycles := dcs\<rparr>\<rparr>)
                        else m\<lparr>gDeviceState := (gDeviceState m)\<lparr>dutyCycles := dcs\<rparr>\<rparr>);
                   m = m\<lparr>gDeviceState := (gDeviceState m)\<lparr>userDutyCycles := udcs\<rparr>\<rparr>;
                   ret = Printf ret kDutyCyclesChanged;
                   ret = fold (\<lambda>param ret. (ret @ [0x20]) @ param) (drop 1 as) ret
               in Inr (ret, m)
             else Inr (Printf ret kInvalidDutyCycle, m))"

definition CmdStatus :: handler where
  "CmdStatus ret as m =
     (let ret = Printf ret kStatusResp;
          ret = Printf ret [CHR '' '', if isPwmGenerated (gDeviceState m) then CHR ''1'' else CHR ''0''];
          arr = ARR m + 1
      in (case udiv32 (TIMER_FREQ m) arr of
            Inl f \<Rightarrow> Inl f
          | Inr freq \<Rightarrow>
              let ret = Printf ret ('' '' @ fmt_d freq);
                  ret = fold (\<lambda>cnt ret. Printf ret ('' '' @ fmt_d (ucast ((ucast cnt :: u64) * 100 div ucast arr))))
                          (dutyCycles (gDeviceState m)) ret
              in Inr (ret, m)))"

subsection \<open>Dispatch (command\_handler.cpp)\<close>

record CommandHandler =
  commandName :: string
  callback :: handler
  minArgs :: nat
  maxArgs :: nat

definition kCommandHandlers :: "CommandHandler list" where
  "kCommandHandlers =
     [\<lparr>commandName = ''ON'', callback = CmdPwmOn, minArgs = 0, maxArgs = 0\<rparr>,
      \<lparr>commandName = ''OFF'', callback = CmdPwmOff, minArgs = 0, maxArgs = 0\<rparr>,
      \<lparr>commandName = ''SET_FREQ'', callback = CmdSetFreq, minArgs = 1, maxArgs = 1\<rparr>,
      \<lparr>commandName = ''SET_DUTY_CYCLES'', callback = CmdSetDutyCycles, minArgs = 1, maxArgs = 312\<rparr>,
      \<lparr>commandName = ''STATUS'', callback = CmdStatus, minArgs = 0, maxArgs = 0\<rparr>]"

definition WRITE_EC :: "bytes \<Rightarrow> string \<Rightarrow> bytes" where
  "WRITE_EC ret ec = ret @ bytes_of ec"

definition ExecuteCommand :: "ParsedCommand \<Rightarrow> bytes \<Rightarrow> Machine \<Rightarrow> fault + bytes \<times> Machine" where
  "ExecuteCommand cmd ret m =
     (let as = args cmd in
      if length as = 0 then Inr (WRITE_EC ret kUnknownCommand, m)
      else
        (case find (\<lambda>handler. bytes_of (commandName handler) = as ! 0) kCommandHandlers of
           None \<Rightarrow> Inr (WRITE_EC ret kUnknownCommand, m)
         | Some found \<Rightarrow>
             if \<not> (minArgs found \<le> length as - 1 \<and> maxArgs found \<ge> length as - 1)
             then Inr (WRITE_EC ret kInvalidArgument, m)
             else callback found ret as m))"

subsection \<open>Sending (usart\_tx\_handler.cpp) and the command loop\<close>

text \<open>
  \<open>SendData\<close> builds the response frame, serializes it into a
  \<open>StaticVec<uint8_t, FRAME_MAX_SIZE * 2>\<close> and, unless serialization fails, hands all
  its bytes to the transmit ring buffer, waiting for room. \<open>uart\<close> is the list of the
  byte sequences handed over so far, one per frame sent; the transmit interrupt that
  drains the ring is not modelled.
\<close>

definition SendData :: "u8 \<Rightarrow> bytes \<Rightarrow> bytes list \<Rightarrow> bytes list" where
  "SendData rcv d uart =
     (let frame = Frame_default;
          frame = frame\<lparr>sender := LOCAL_ID\<rparr>;
          frame = frame\<lparr>receiver := rcv\<rparr>;
          frame = frame\<lparr>data := snd (push_slice FRAME_DATA_MAX_SIZE d (data frame))\<rparr>;
          (err, serialized) = serialize_into (FRAME_MAX_SIZE * 2) frame []
      in if err \<noteq> SerializeOk then uart else uart @ [serialized])"

text \<open>
  One turn of the loop of \<open>HandlePendingCommands\<close> after \<open>GetFrame\<close> has produced
  \<open>frame\<close>: the statements from the test of the receiver to the end of the loop body.
\<close>

definition HandleFrame :: "Frame \<Rightarrow> Machine \<Rightarrow> bytes list \<Rightarrow> fault + Machine \<times> bytes list" where
  "HandleFrame frame m uart =
     (if receiver frame \<noteq> LOCAL_ID then Inr (m, uart)
      else
        (case ParseCommands (data frame) of
           None \<Rightarrow> Inr (m, uart)
         | Some command \<Rightarrow>
             (case ExecuteCommand command [] m of
                Inl f \<Rightarrow> Inl f
              | Inr (ret, m) \<Rightarrow> Inr (m, SendData (sender frame) ret uart))))"

record System =
  gRxBuffer :: CircularBuffer
  machine :: Machine
  uart :: "bytes list"

partial_function (option) HandlePendingCommands :: "System \<Rightarrow> (fault + System) option" where
  "HandlePendingCommands s =
     (case GetFrame (gRxBuffer s) of
        None \<Rightarrow> None
      | Some (None, cb) \<Rightarrow> Some (Inr (s\<lparr>gRxBuffer := cb\<rparr>))
      | Some (Some frame, cb) \<Rightarrow>
          (case HandleFrame frame (machine s) (uart s) of
             Inl f \<Rightarrow> Some (Inl f)
           | Inr (m, u) \<Rightarrow>
               HandlePendingCommands (s\<lparr>gRxBuffer := cb, machine := m, uart := u\<rparr>)))"

section \<open>The wire format as the specification words it\<close>

text \<open>
  \<open>BEGIN \<cdot> escape(sender \<parallel> receiver \<parallel> len16 \<parallel> payload \<parallel> crc32) \<cdot> END\<close>: these
  definitions follow the specification, not the code; the lemmas below compare the
  code with them. \<open>parsed_fields\<close> reads sender, receiver and payload off decoded bytes.
\<close>

definition escape :: "u8 \<Rightarrow> bytes" where
  "escape b = (case find (\<lambda>e. b = fst e) ESCAPE_TABLE of Some e \<Rightarrow> [ESCAPE_BYTE, snd e] | None \<Rightarrow> [b])"

definition frame_fields :: "Frame \<Rightarrow> bytes" where
  "frame_fields f = to_be_bytes_u8 (sender f) @ to_be_bytes_u8 (receiver f) @
     to_be_bytes_u16 (of_nat (length (data f))) @ data f"

definition wire_format :: "Frame \<Rightarrow> bytes" where
  "wire_format f = BEGIN_FRAME_BYTE # concat (map escape (frame_fields f @ to_be_bytes_u32 (crc32 f))) @ [END_FRAME_BYTE]"

definition parsed_fields :: "bytes \<Rightarrow> Frame" where
  "parsed_fields decoded =
     \<lparr>sender = decoded ! 0, receiver = decoded ! 1,
      data = take (unat (from_be_bytes_u16 (take 2 (drop 2 decoded)))) (drop 4 decoded)\<rparr>"

text \<open>
  An argument as the command protocol words it: an unsigned decimal number, here one
  that fits \<open>std::uint32_t\<close>.
\<close>

definition decimal_u32 :: "bytes \<Rightarrow> bool" where
  "decimal_u32 arg = (arg \<noteq> [] \<and> (\<forall>c \<in> set arg. is_digit c) \<and> digits_value arg < 2 ^ 32)"

section \<open>Properties of the containers\<close>

lemma push_slice_loop_take:
  "length v \<le> SIZE \<Longrightarrow> push_slice_loop SIZE xs v = v @ take (SIZE - length v) xs"
proof (induction xs arbitrary: v)
  case Nil
  then show ?case by simp
next
  case (Cons x xs)
  show ?case
  proof (cases "length v < SIZE")
    case True
    then have "push_slice_loop SIZE (x # xs) v = push_slice_loop SIZE xs (v @ [x])"
      by (simp add: push_back_def)
    also have "\<dots> = (v @ [x]) @ take (SIZE - length (v @ [x])) xs"
      using True by (intro Cons.IH) simp
    also have "\<dots> = v @ take (SIZE - length v) (x # xs)"
    proof -
      from True obtain k where k: "SIZE - length v = Suc k"
        by (cases "SIZE - length v") auto
      then have "SIZE - Suc (length v) = k" by arith
      with k show ?thesis by simp
    qed
    finally show ?thesis .
  next
    case False
    with Cons.prems have "length v = SIZE" by simp
    then show ?thesis by (simp add: push_back_def)
  qed
qed

text \<open>
  C10. \<open>push_slice\<close> appends the elements of the slice in order up to the first push
  that is rejected: the vector becomes its old contents followed by the longest prefix
  of the slice that fits, its size stays within the capacity, and the value returned
  is 0 whatever the slice and however many elements were appended.
\<close>

theorem push_slice_returns_zero:
  "fst (push_slice SIZE xs v) = 0 \<and>
   (length v \<le> SIZE \<longrightarrow>
      snd (push_slice SIZE xs v) = v @ take (SIZE - length v) xs \<and>
      length (snd (push_slice SIZE xs v)) \<le> SIZE)"
  by (auto simp add: push_slice_def push_slice_loop_take)

theorem push_slice_returns_zero_witness:
  "length [1, 2 :: u8] \<le> 3 \<and>
   fst (push_slice 3 [7, 8, 9] [1, 2 :: u8]) = 0 \<and>
   snd (push_slice 3 [7, 8, 9] [1, 2 :: u8]) = [1, 2, 7] \<and>
   length (snd (push_slice 3 [7, 8, 9] [1, 2 :: u8])) \<le> 3"
  using push_slice_returns_zero [of 3 "[7, 8, 9]" "[1, 2 :: u8]"] by simp

text \<open>
  C4. In the initial state \<open>head\<close> equals \<open>tail\<close> and no byte is held, yet
  \<open>getSize\<close> answers the capacity: its test is \<open>head > tail\<close>, so equal indices fall
  into the wrap-around branch \<open>SIZE - tail + head\<close>.
\<close>

theorem getSize_empty_is_capacity:
  "head (CircularBuffer_init SIZE) = tail (CircularBuffer_init SIZE) \<and>
   held (CircularBuffer_init SIZE) = 0 \<and>
   getSize (CircularBuffer_init SIZE) = SIZE \<and>
   getSize (run_ring_ops 5120 []) = 5120"
  by (simp add: CircularBuffer_init_def getSize_def held_def run_ring_ops_def)

theorem getSize_empty_is_capacity_witness:
  "head (CircularBuffer_init 5120) = tail (CircularBuffer_init 5120) \<and>
   held (CircularBuffer_init 5120) = 0 \<and>
   getSize (CircularBuffer_init 5120) = 5120"
  using getSize_empty_is_capacity [of 5120] by simp


text \<open>
  What holds in every state reached from the initial one: both indices stay below the
  capacity; no byte is held exactly when \<open>head\<close> equals \<open>tail\<close>; at most
  \<open>capacity - 1\<close> bytes are held; and \<open>getSize\<close> is the number of bytes held whenever
  the buffer is not empty.
\<close>

lemma apply_ring_op_bounds:
  assumes "0 < capacity cb" "head cb < capacity cb" "tail cb < capacity cb"
  shows "capacity (apply_ring_op cb x) = capacity cb \<and>
         head (apply_ring_op cb x) < capacity cb \<and> tail (apply_ring_op cb x) < capacity cb"
  using assms
  by (cases x) (auto simp add: push_head_def pop_tail_def advance_head_def Let_def)

lemma run_ring_ops_bounds:
  assumes "0 < SIZE"
  shows "capacity (run_ring_ops SIZE ops) = SIZE \<and>
         head (run_ring_ops SIZE ops) < SIZE \<and> tail (run_ring_ops SIZE ops) < SIZE"
proof (induction ops rule: rev_induct)
  case Nil
  from assms show ?case by (simp add: run_ring_ops_def CircularBuffer_init_def)
next
  case (snoc x ops)
  have "run_ring_ops SIZE (ops @ [x]) = apply_ring_op (run_ring_ops SIZE ops) x"
    by (simp add: run_ring_ops_def)
  with snoc assms apply_ring_op_bounds [of "run_ring_ops SIZE ops" x] show ?case
    by simp
qed

lemma held_and_getSize:
  assumes "head cb < capacity cb" "tail cb < capacity cb"
  shows "(held cb = 0) = (head cb = tail cb)"
    and "held cb \<le> capacity cb - 1"
    and "head cb \<noteq> tail cb \<Longrightarrow> getSize cb = held cb"
    and "head cb = tail cb \<Longrightarrow> getSize cb = capacity cb"
proof -
  have h: "held cb = (if tail cb \<le> head cb then head cb - tail cb
                      else head cb + capacity cb - tail cb)"
  proof (cases "tail cb \<le> head cb")
    case True
    then have "head cb + capacity cb - tail cb = (head cb - tail cb) + capacity cb"
      by simp
    then have "held cb = (head cb - tail cb) mod capacity cb"
      by (simp only: held_def mod_add_self2)
    with True assms show ?thesis by simp
  next
    case False
    with assms show ?thesis by (simp add: held_def)
  qed
  from assms show "(held cb = 0) = (head cb = tail cb)"
    by (auto simp add: h)
  from assms show "held cb \<le> capacity cb - 1"
    by (auto simp add: h)
  from assms show "head cb \<noteq> tail cb \<Longrightarrow> getSize cb = held cb"
    by (auto simp add: h getSize_def)
  from assms show "head cb = tail cb \<Longrightarrow> getSize cb = capacity cb"
    by (simp add: getSize_def)
qed

section \<open>Properties of the codec\<close>

lemma pad_loop_push_accepted:
  "length b \<le> FRAME_MAX_SIZE \<Longrightarrow> length b mod 4 \<noteq> 0 \<Longrightarrow>
   push_back FRAME_MAX_SIZE 0 b = (None, b @ [0])"
  by (auto simp add: push_back_def FRAME_MAX_SIZE_def)

lemma push_back_take: "snd (push_back SIZE x (take SIZE w)) = take SIZE (w @ [x])"
  by (cases "length w < SIZE") (simp_all add: push_back_def)

lemma push_back_take_fst: "fst (push_back SIZE x (take SIZE w)) = (if length w < SIZE then None else Some x)"
  by (simp add: push_back_def)

lemma escape_cases: "escape b = (if b = ESCAPE_BYTE then [ESCAPE_BYTE, 0x41] else if b = BEGIN_FRAME_BYTE then [ESCAPE_BYTE, 0x42]
   else if b = END_FRAME_BYTE then [ESCAPE_BYTE, 0x43] else [b])"
  by (simp add: escape_def ESCAPE_TABLE_def)

lemma encode_byte_take: "encode_byte SIZE b (take SIZE w) = take SIZE (w @ escape b)"
proof -
  have two: "snd (push_back SIZE y (snd (push_back SIZE x (take SIZE w)))) = take SIZE (w @ [x, y])" for x y
    using push_back_take [of SIZE y "w @ [x]"] by (simp add: push_back_take del: take_append)
  show ?thesis
    by (simp add: encode_byte_def escape_def two push_back_take del: take_append split: option.split)
qed

lemma encode_bytes_take: "encode_bytes SIZE bs (take SIZE w) = take SIZE (w @ concat (map escape bs))"
proof (induction bs arbitrary: w)
  case Nil
  then show ?case by (simp add: encode_bytes_def)
next
  case (Cons b bs)
  have "encode_bytes SIZE (b # bs) (take SIZE w) = encode_bytes SIZE bs (encode_byte SIZE b (take SIZE w))"
    by (simp add: encode_bytes_def)
  also have "\<dots> = encode_bytes SIZE bs (take SIZE (w @ escape b))"
    by (simp only: encode_byte_take)
  also have "\<dots> = take SIZE ((w @ escape b) @ concat (map escape bs))"
    by (rule Cons.IH)
  finally show ?case by (simp del: take_append)
qed

lemma serialize_into_wire:
  assumes "length (data f) \<le> FRAME_DATA_MAX_SIZE"
  shows "serialize_into SIZE f [] =
     (if length (wire_format f) \<le> SIZE then SerializeOk else BufferTooSmall, take SIZE (wire_format f))"
proof -
  have b: "snd (push_back SIZE BEGIN_FRAME_BYTE []) = take SIZE [BEGIN_FRAME_BYTE]"
    using push_back_take [of SIZE BEGIN_FRAME_BYTE "[]"] by simp
  have fields: "serialize_fields SIZE f (take SIZE w) = (SerializeOk, take SIZE (w @ concat (map escape (frame_fields f))))" for w
  proof -
    have step: "encode_bytes SIZE bs (take SIZE v) = take SIZE (v @ concat (map escape bs))" for bs v
      by (rule encode_bytes_take)
    show ?thesis
      unfolding serialize_fields_def Let_def frame_fields_def step
      by (simp del: take_append)
  qed
  define body where "body = BEGIN_FRAME_BYTE # concat (map escape (frame_fields f @ to_be_bytes_u32 (crc32 f)))"
  have w: "wire_format f = body @ [END_FRAME_BYTE]" by (simp add: wire_format_def body_def)
  have "serialize_into SIZE f [] =
     (let (rejected, out) = push_back SIZE END_FRAME_BYTE (take SIZE body) in
       if rejected \<noteq> None then (BufferTooSmall, out) else (SerializeOk, out))"
  proof -
    have "serialize_fields SIZE f (take SIZE [BEGIN_FRAME_BYTE]) =
        (SerializeOk, take SIZE ([BEGIN_FRAME_BYTE] @ concat (map escape (frame_fields f))))"
      by (rule fields)
    moreover have "encode_bytes SIZE (to_be_bytes_u32 (crc32 f))
        (take SIZE ([BEGIN_FRAME_BYTE] @ concat (map escape (frame_fields f)))) = take SIZE body"
      unfolding encode_bytes_take body_def by simp
    ultimately show ?thesis
      using assms by (simp add: serialize_into_def b Let_def del: take_append)
  qed
  also have "\<dots> = (if length (wire_format f) \<le> SIZE then SerializeOk else BufferTooSmall, take SIZE (wire_format f))"
    by (cases "length body < SIZE") (simp_all add: w push_back_def)
  finally show ?thesis .
qed

lemma escape_nonempty: "escape b \<noteq> []" and length_escape: "length (escape b) \<le> 2"
  by (simp_all add: escape_cases)

lemma decode_byte_escape: "decode_byte (escape b @ rest) = Inr (b, length (escape b))"
  by (simp add: escape_cases decode_byte_def ESCAPE_TABLE_def ESCAPE_BYTE_def
      BEGIN_FRAME_BYTE_def END_FRAME_BYTE_def)

lemma decode_bytes_escape:
  "length out + length bs \<le> SIZE \<Longrightarrow>
   decode_bytes SIZE (concat (map escape bs)) out = (DeserializeOk, out @ bs)"
proof (induction bs arbitrary: out)
  case Nil
  then show ?case by (subst decode_bytes.simps) simp
next
  case (Cons b bs)
  have ne: "length (concat (map escape (b # bs))) \<noteq> 0"
    using escape_nonempty [of b] by simp
  have "decode_bytes SIZE (concat (map escape (b # bs))) out =
      decode_bytes SIZE (concat (map escape bs)) (snd (push_back SIZE b out))"
    using ne by (subst decode_bytes.simps) (simp add: decode_byte_escape)
  also have "snd (push_back SIZE b out) = out @ [b]"
    using Cons.prems by (simp add: push_back_def)
  also have "decode_bytes SIZE (concat (map escape bs)) (out @ [b]) = (DeserializeOk, (out @ [b]) @ bs)"
    using Cons.prems by (intro Cons.IH) simp
  finally show ?case by simp
qed

lemma from_to_be_bytes_u16: "from_be_bytes_u16 (to_be_bytes_u16 w) = w"
  unfolding from_be_bytes_u16_def to_be_bytes_u16_def
  by (rule bit_word_eqI) (auto simp add: bit_simps)

lemma from_to_be_bytes_u32: "from_be_bytes_u32 (to_be_bytes_u32 w) = w"
  unfolding from_be_bytes_u32_def to_be_bytes_u32_def
proof (rule bit_word_eqI)
  fix n
  assume "n < LENGTH(32)"
  then consider "n < 8" | "8 \<le> n" "n < 16" | "16 \<le> n" "n < 24" | "24 \<le> n" "n < 32"
    by fastforce
  then show "bit (push_bit 24 (ucast ([ucast (drop_bit 24 w), ucast (drop_bit 16 w),
                 ucast (drop_bit 8 w), ucast w :: u8] ! 0)) OR
        push_bit 16 (ucast ([ucast (drop_bit 24 w), ucast (drop_bit 16 w),
                 ucast (drop_bit 8 w), ucast w :: u8] ! 1)) OR
        push_bit 8 (ucast ([ucast (drop_bit 24 w), ucast (drop_bit 16 w),
                 ucast (drop_bit 8 w), ucast w :: u8] ! 2)) OR
        ucast ([ucast (drop_bit 24 w), ucast (drop_bit 16 w),
                 ucast (drop_bit 8 w), ucast w :: u8] ! 3) :: u32) n = bit w n"
    by cases (auto simp add: bit_simps)
qed

lemma FRAME_DATA_MAX_SIZE_eq: "FRAME_DATA_MAX_SIZE = 1268"
  by (simp add: FRAME_DATA_MAX_SIZE_def FRAME_MAX_SIZE_def FRAME_MIN_SIZE_def)

lemma unat_length_u16: "n \<le> FRAME_DATA_MAX_SIZE \<Longrightarrow> unat (of_nat n :: u16) = n"
  by (simp add: FRAME_DATA_MAX_SIZE_eq unat_of_nat)

lemma deserialize_from_decoded_fields:
  fixes f :: Frame
  assumes len: "length (data f) \<le> FRAME_DATA_MAX_SIZE"
  shows "deserialize_from_decoded f0 (frame_fields f @ to_be_bytes_u32 (crc32 f)) = (DeserializeOk, f)"
proof -
  define n where "n = length (data f)"
  define l16 where "l16 = to_be_bytes_u16 (of_nat n)"
  define c where "c = to_be_bytes_u32 (crc32 f)"
  define decoded where "decoded = frame_fields f @ c"
  have l16_len: "length l16 = 2" and c_len: "length c = 4"
    by (simp_all add: l16_def c_def to_be_bytes_u16_def to_be_bytes_u32_def)
  have dec: "decoded = sender f # receiver f # l16 @ data f @ c"
    by (simp add: decoded_def frame_fields_def to_be_bytes_u8_def l16_def n_def)
  have total: "length decoded = 8 + n"
    by (simp add: dec l16_len c_len n_def)
  have s: "deserialize_u8 decoded 0 = Inr (sender f, 1)"
    by (simp add: deserialize_u8_def dec from_be_bytes_u8_def)
  have r: "deserialize_u8 decoded (Suc 0) = Inr (receiver f, 2)"
    by (simp add: deserialize_u8_def dec from_be_bytes_u8_def)
  have "take 2 (drop 2 decoded) = l16"
    by (simp add: dec l16_len)
  then have l: "deserialize_u16 decoded 2 = Inr (of_nat n, 4)"
    by (simp add: deserialize_u16_def total l16_def from_to_be_bytes_u16)
  have un: "unat (of_nat n :: u16) = n"
    using len by (simp add: n_def unat_length_u16)
  have payload: "take n (drop 4 decoded) = data f"
    by (simp add: dec l16_len n_def)
  have push: "snd (push_slice FRAME_DATA_MAX_SIZE (data f) []) = data f"
    using len by (simp add: push_slice_def push_slice_loop_take)
  have "decoded = (sender f # receiver f # l16 @ data f) @ c"
    by (simp add: dec)
  moreover have "length (sender f # receiver f # l16 @ data f) = 4 + n"
    by (simp add: l16_len n_def)
  ultimately have t4: "take 4 (drop (4 + n) decoded) = c"
    by (simp add: c_len del: append.simps append_assoc)
  have cr: "deserialize_u32 decoded (4 + n) = Inr (crc32 f, 8 + n)"
    unfolding deserialize_u32_def t4 by (simp add: total c_def from_to_be_bytes_u32)
  have fr: "f0\<lparr>sender := sender f, receiver := receiver f, data := data f\<rparr> = f"
    by simp
  show ?thesis
    unfolding decoded_def [symmetric] c_def [symmetric]
    using len
    by (simp add: deserialize_from_decoded_def Let_def s r l un payload push cr total clear_def fr
        n_def [symmetric])
qed


lemma length_concat_escape:
  "length (concat (map escape bs)) \<le> 2 * length bs" and
  length_concat_escape_ge: "length bs \<le> length (concat (map escape bs))"
proof -
  show "length (concat (map escape bs)) \<le> 2 * length bs"
  proof (induction bs)
    case Nil
    then show ?case by simp
  next
    case (Cons b bs)
    with length_escape [of b] show ?case by simp
  qed
  show "length bs \<le> length (concat (map escape bs))"
  proof (induction bs)
    case Nil
    then show ?case by simp
  next
    case (Cons b bs)
    have "1 \<le> length (escape b)"
      using escape_nonempty [of b] by (cases "escape b") simp_all
    with Cons show ?case by simp
  qed
qed

lemma length_frame_fields: "length (frame_fields f @ to_be_bytes_u32 (crc32 f)) = length (data f) + 8"
  by (simp add: frame_fields_def to_be_bytes_u8_def to_be_bytes_u16_def to_be_bytes_u32_def)

lemma length_wire_format:
  "length (wire_format f) \<le> 2 * (length (data f) + 8) + 2" and
  length_wire_format_ge: "FRAME_MIN_SIZE \<le> length (wire_format f)"
proof -
  let ?body = "frame_fields f @ to_be_bytes_u32 (crc32 f)"
  have len: "length (wire_format f) = length (concat (map escape ?body)) + 2"
    by (simp add: wire_format_def)
  show "length (wire_format f) \<le> 2 * (length (data f) + 8) + 2"
    using length_concat_escape [of ?body] by (simp only: len length_frame_fields)
  show "FRAME_MIN_SIZE \<le> length (wire_format f)"
    using length_concat_escape_ge [of ?body]
    by (simp only: len length_frame_fields FRAME_MIN_SIZE_def)
qed

lemma deserialize_from_wire:
  fixes f :: Frame
  assumes len: "length (data f) \<le> FRAME_DATA_MAX_SIZE"
  shows "deserialize_from f0 (wire_format f) = (DeserializeOk, f)"
proof -
  let ?body = "frame_fields f @ to_be_bytes_u32 (crc32 f)"
  have inner: "butlast (tl (wire_format f)) = concat (map escape ?body)"
    by (simp add: wire_format_def butlast_append)
  have first: "wire_format f ! 0 = BEGIN_FRAME_BYTE"
    by (simp add: wire_format_def)
  have "wire_format f \<noteq> []" and "last (wire_format f) = END_FRAME_BYTE"
    by (simp_all add: wire_format_def)
  then have final: "wire_format f ! (length (wire_format f) - Suc 0) = END_FRAME_BYTE"
    by (simp add: last_conv_nth)
  have "length [] + length ?body \<le> FRAME_MAX_SIZE"
    using len by (simp only: length_frame_fields) (simp add: FRAME_DATA_MAX_SIZE_eq FRAME_MAX_SIZE_def)
  then have dec: "decode_bytes FRAME_MAX_SIZE (concat (map escape ?body)) [] = (DeserializeOk, [] @ ?body)"
    by (rule decode_bytes_escape)
  have "\<not> length (wire_format f) < FRAME_MIN_SIZE"
    using length_wire_format_ge [of f] by simp
  then show ?thesis
    using deserialize_from_decoded_fields [OF len, of f0]
    by (simp add: deserialize_from_def first final inner dec del: append_assoc map_append concat_append)
qed

text \<open>
  C1. A frame whose payload has at most \<open>FRAME_DATA_MAX_SIZE\<close> bytes, serialized into an
  empty vector with room for the longest encoding of its fields (every byte escaped,
  and the two delimiters), gives \<open>SerializeOk\<close>; \<open>deserialize_from\<close> on the bytes
  produced gives \<open>DeserializeOk\<close> and the same frame, whatever the target frame held
  before. A \<open>StaticVec<uint8_t, FRAME_MAX_SIZE * 2>\<close>, as the callers use, has that room
  for every payload.
\<close>

theorem serialize_deserialize_roundtrip:
  fixes f :: Frame
  assumes "length (data f) \<le> FRAME_DATA_MAX_SIZE"
    and "2 * (length (data f) + 8) + 2 \<le> SIZE"
  shows "\<exists>out. serialize_into SIZE f [] = (SerializeOk, out) \<and>
               deserialize_from f0 out = (DeserializeOk, f)"
proof -
  have fits: "length (wire_format f) \<le> SIZE"
    using length_wire_format [of f] assms(2) by simp
  then have "serialize_into SIZE f [] = (SerializeOk, wire_format f)"
    by (simp add: serialize_into_wire [OF assms(1)])
  moreover have "deserialize_from f0 (wire_format f) = (DeserializeOk, f)"
    using assms(1) by (rule deserialize_from_wire)
  ultimately show ?thesis by blast
qed

theorem serialize_deserialize_roundtrip_witness:
  "length (data \<lparr>sender = 1, receiver = 100, data = [0x28, 0x41]\<rparr>) \<le> FRAME_DATA_MAX_SIZE \<and>
   2 * (length (data \<lparr>sender = 1, receiver = 100, data = [0x28, 0x41]\<rparr>) + 8) + 2 \<le> 2560 \<and>
   (\<exists>out. serialize_into 2560 \<lparr>sender = 1, receiver = 100, data = [0x28, 0x41]\<rparr> [] = (SerializeOk, out) \<and>
      deserialize_from \<lparr>sender = 0, receiver = 0, data = []\<rparr> out =
        (DeserializeOk, \<lparr>sender = 1, receiver = 100, data = [0x28, 0x41]\<rparr>))"
  using serialize_deserialize_roundtrip
    [of "\<lparr>sender = 1, receiver = 100, data = [0x28, 0x41]\<rparr>" 2560 "\<lparr>sender = 0, receiver = 0, data = []\<rparr>"]
  by (simp add: FRAME_DATA_MAX_SIZE_eq)

section \<open>Payload bound, frequency and duty-cycle handlers\<close>

lemma deserialize_header:
  assumes "4 \<le> length decoded"
  shows "deserialize_u8 decoded 0 = Inr (decoded ! 0, 1)"
    and "deserialize_u8 decoded 1 = Inr (decoded ! 1, 2)"
    and "deserialize_u16 decoded 2 = Inr (from_be_bytes_u16 (take 2 (drop 2 decoded)), 4)"
proof -
  from assms obtain a b rest where "decoded = a # b # rest"
    by (cases decoded; cases "tl decoded") auto
  with assms show "deserialize_u8 decoded 0 = Inr (decoded ! 0, 1)"
    and "deserialize_u8 decoded 1 = Inr (decoded ! 1, 2)"
    and "deserialize_u16 decoded 2 = Inr (from_be_bytes_u16 (take 2 (drop 2 decoded)), 4)"
    by (simp_all add: deserialize_u8_def deserialize_u16_def from_be_bytes_u8_def)
qed

lemma declared_too_big:
  assumes len: "4 \<le> length decoded"
    and big: "FRAME_DATA_MAX_SIZE < unat (from_be_bytes_u16 (take 2 (drop 2 decoded)))"
  shows "fst (deserialize_from_decoded f0 decoded) = DataTooBig"
  by (simp only: deserialize_from_decoded_def deserialize_header [OF len] sum.case prod.case
      Let_def big if_True fst_conv)

text \<open>
  C5, as stated, fails: \<open>FRAME_DATA_MAX_SIZE\<close> is neither \<open>FRAME_MAX_SIZE - 10\<close> nor 1270.
  A payload of 1269 bytes is already refused by \<open>serialize_into\<close>, and a declared
  length of 1269 (bytes \<open>0x04 0xF5\<close>) by \<open>deserialize_from_decoded\<close>.
\<close>

theorem FRAME_DATA_MAX_SIZE_is_1270_counterexample:
  "FRAME_DATA_MAX_SIZE \<noteq> FRAME_MAX_SIZE - 10 \<and> FRAME_DATA_MAX_SIZE \<noteq> 1270 \<and>
   fst (serialize_into 2560 \<lparr>sender = 1, receiver = 100, data = replicate 1269 0\<rparr> []) = FrameTooLongError \<and>
   fst (deserialize_from_decoded \<lparr>sender = 0, receiver = 0, data = []\<rparr> [1, 100, 0x04, 0xF5]) = DataTooBig"
  by (simp add: FRAME_DATA_MAX_SIZE_eq FRAME_MAX_SIZE_def serialize_into_def
      deserialize_from_decoded_def deserialize_u8_def deserialize_u16_def Let_def
      from_be_bytes_u8_def from_be_bytes_u16_def)

text \<open>
  C5, amended. \<open>FRAME_DATA_MAX_SIZE\<close> is \<open>FRAME_MAX_SIZE - FRAME_MIN_SIZE - 2\<close>, that is
  \<open>FRAME_MAX_SIZE - 12 = 1268\<close>. \<open>serialize_into\<close> answers \<open>FrameTooLongError\<close>, leaving
  the destination as it was, for every longer payload, and \<open>deserialize_from_decoded\<close>
  answers \<open>DataTooBig\<close> for every larger declared length (once the four header bytes are
  there to read it from).
\<close>

theorem FRAME_DATA_MAX_SIZE_value:
  "FRAME_DATA_MAX_SIZE = FRAME_MAX_SIZE - FRAME_MIN_SIZE - 2 \<and>
   FRAME_DATA_MAX_SIZE = FRAME_MAX_SIZE - 12 \<and>
   FRAME_DATA_MAX_SIZE = 1268 \<and>
   (FRAME_DATA_MAX_SIZE < length (data f) \<longrightarrow>
      serialize_into SIZE f out = (FrameTooLongError, out)) \<and>
   (4 \<le> length decoded \<and>
    FRAME_DATA_MAX_SIZE < unat (from_be_bytes_u16 (take 2 (drop 2 decoded))) \<longrightarrow>
      fst (deserialize_from_decoded f0 decoded) = DataTooBig)"
  using declared_too_big [of decoded f0]
  by (simp add: FRAME_DATA_MAX_SIZE_eq FRAME_MAX_SIZE_def FRAME_MIN_SIZE_def serialize_into_def)

theorem FRAME_DATA_MAX_SIZE_value_witness:
  "FRAME_DATA_MAX_SIZE < length (data \<lparr>sender = 1, receiver = 100, data = replicate 1269 0\<rparr>) \<and>
   serialize_into 2560 \<lparr>sender = 1, receiver = 100, data = replicate 1269 0\<rparr> [] =
     (FrameTooLongError, []) \<and>
   4 \<le> length [1, 100, 0x04, 0xF5 :: u8] \<and>
   FRAME_DATA_MAX_SIZE < unat (from_be_bytes_u16 (take 2 (drop 2 [1, 100, 0x04, 0xF5]))) \<and>
   fst (deserialize_from_decoded \<lparr>sender = 0, receiver = 0, data = []\<rparr> [1, 100, 0x04, 0xF5]) = DataTooBig"
  using FRAME_DATA_MAX_SIZE_value
    [of "\<lparr>sender = 1, receiver = 100, data = replicate 1269 0\<rparr>" 2560 "[]" "[1, 100, 0x04, 0xF5]"
        "\<lparr>sender = 0, receiver = 0, data = []\<rparr>"]
  by (simp add: FRAME_DATA_MAX_SIZE_eq from_be_bytes_u16_def)

text \<open>
  C3. For the request \<open>SET_FREQ 0\<close> the handler divides \<open>TIMER_FREQ\<close> by the parsed value
  0 before it looks at \<open>value == 0\<close>: the evaluation ends in the division by zero and
  never reaches the branch that answers \<open>INVALID_FREQUENCY\<close>. This holds for the
  handler alone and through \<open>ExecuteCommand\<close>, for every response buffer and machine.
\<close>

theorem set_freq_zero_divides:
  "CmdSetFreq ret [bytes_of ''SET_FREQ'', bytes_of ''0''] m = Inl DivisionByZero \<and>
   ExecuteCommand \<lparr>args = [bytes_of ''SET_FREQ'', bytes_of ''0'']\<rparr> ret m = Inl DivisionByZero \<and>
   ParseCommands (bytes_of ''SET_FREQ 0'') = Some \<lparr>args = [bytes_of ''SET_FREQ'', bytes_of ''0'']\<rparr>"
  by (simp add: CmdSetFreq_def ExecuteCommand_def kCommandHandlers_def bytes_of_def from_chars_def
      is_digit_def digits_value_def udiv32_def Let_def ParseCommands_def Split.simps)

theorem set_freq_zero_divides_witness:
  "CmdSetFreq [] [bytes_of ''SET_FREQ'', bytes_of ''0'']
     \<lparr>gDeviceState = \<lparr>dutyCycles = [250], userDutyCycles = [25], isPwmGenerated = True\<rparr>,
      ARR = 999, CNT = 0, pwm_dma = Some [250], PCLK1Freq = 42000000\<rparr> = Inl DivisionByZero \<and>
   ExecuteCommand \<lparr>args = [bytes_of ''SET_FREQ'', bytes_of ''0'']\<rparr> []
     \<lparr>gDeviceState = \<lparr>dutyCycles = [250], userDutyCycles = [25], isPwmGenerated = True\<rparr>,
      ARR = 999, CNT = 0, pwm_dma = Some [250], PCLK1Freq = 42000000\<rparr> = Inl DivisionByZero"
  using set_freq_zero_divides
    [of "[]" "\<lparr>gDeviceState = \<lparr>dutyCycles = [250], userDutyCycles = [25], isPwmGenerated = True\<rparr>,
      ARR = 999, CNT = 0, pwm_dma = Some [250], PCLK1Freq = 42000000\<rparr>"]
  by simp


lemma from_chars_ok_iff:
  "(fst (snd (from_chars arg v)) = errc_none \<and> fst (from_chars arg v) = length arg) = decimal_u32 arg"
proof (cases "takeWhile is_digit arg = arg")
  case True
  then have "\<forall>c \<in> set arg. is_digit c"
    by (simp add: takeWhile_eq_all_conv)
  then show ?thesis
    unfolding from_chars_def True Let_def
    by (auto simp add: decimal_u32_def not_le)
next
  case False
  then have nd: "\<not> (\<forall>c \<in> set arg. is_digit c)"
    by (simp add: takeWhile_eq_all_conv)
  have "length (takeWhile is_digit arg) \<noteq> length arg"
  proof
    assume "length (takeWhile is_digit arg) = length arg"
    then have "takeWhile is_digit arg = arg"
      by (metis takeWhile_dropWhile_id append_self_conv length_0_conv length_append add_cancel_left_right)
    with False show False by simp
  qed
  moreover from False have "arg \<noteq> []" by auto
  ultimately show ?thesis
    using nd by (auto simp add: from_chars_def decimal_u32_def Let_def)
qed

lemma from_chars_value:
  "decimal_u32 arg \<Longrightarrow> from_chars arg v = (length arg, errc_none, of_nat (digits_value arg))"
proof -
  assume d: "decimal_u32 arg"
  then have "takeWhile is_digit arg = arg"
    by (simp add: decimal_u32_def takeWhile_eq_all_conv)
  then show ?thesis
    unfolding from_chars_def Let_def
    using d by (simp only:) (simp add: decimal_u32_def)
qed

lemma parse_params_Some:
  "\<forall>arg \<in> set as. decimal_u32 arg \<Longrightarrow>
   parse_params as ps = Some (ps @ map (\<lambda>arg. of_nat (digits_value arg)) as)"
  by (induction as arbitrary: ps) (simp_all add: from_chars_value)

lemma parse_params_None:
  "\<not> (\<forall>arg \<in> set as. decimal_u32 arg) \<Longrightarrow> parse_params as ps = None"
proof (induction as arbitrary: ps)
  case Nil
  then show ?case by simp
next
  case (Cons a as)
  show ?case
  proof (cases "decimal_u32 a")
    case True
    with Cons.prems have "\<not> (\<forall>arg \<in> set as. decimal_u32 arg)" by simp
    then have "parse_params as (ps @ [of_nat (digits_value a)]) = None" by (rule Cons.IH)
    with True show ?thesis by (simp add: from_chars_value)
  next
    case False
    then have "\<not> (fst (snd (from_chars a 0)) = errc_none \<and> fst (from_chars a 0) = length a)"
      by (simp only: from_chars_ok_iff) simp
    then show ?thesis by (auto simp add: split_beta)
  qed
qed

lemma any_invalid_True:
  "\<exists>p \<in> set ps. 100 < p \<Longrightarrow> fst (any_invalid ps arr (dcs, udcs))"
  by (induction ps arbitrary: dcs udcs) (auto simp add: Let_def)

lemma of_nat_gt_100:
  "n < 2 ^ 32 \<Longrightarrow> (100 < (of_nat n :: u32)) = (100 < n)"
  by (simp add: word_less_nat_alt unat_of_nat)

text \<open>
  C6, amended. When every argument of \<open>SET_DUTY_CYCLES\<close> is an unsigned decimal number
  that fits 32 bits and at least one of them is above 100, the handler appends
  \<open>INVALID_DUTY_CYCLE\<close> to the response and returns the machine (the duty-cycle set,
  the user percentages and all the rest) exactly as it was.
\<close>

theorem set_duty_cycles_all_or_nothing:
  "(\<forall>arg \<in> set (drop 1 as). decimal_u32 arg) \<and>
   (\<exists>arg \<in> set (drop 1 as). 100 < digits_value arg) \<longrightarrow>
     CmdSetDutyCycles ret as m = Inr (ret @ bytes_of kInvalidDutyCycle, m)"
proof
  assume h: "(\<forall>arg \<in> set (drop 1 as). decimal_u32 arg) \<and>
    (\<exists>arg \<in> set (drop 1 as). 100 < digits_value arg)"
  let ?ps = "map (\<lambda>arg. of_nat (digits_value arg) :: u32) (drop 1 as)"
  from h have p: "parse_params (drop 1 as) [] = Some ?ps"
    using parse_params_Some [of "drop 1 as" "[]"] by simp
  from h obtain arg where a: "arg \<in> set (drop 1 as)" "100 < digits_value arg" "decimal_u32 arg"
    by blast
  then have "100 < (of_nat (digits_value arg) :: u32)"
    by (simp add: of_nat_gt_100 decimal_u32_def)
  with a(1) have "\<exists>p \<in> set ?ps. 100 < p"
    by auto
  then have "fst (any_invalid ?ps (ARR m + 1) ([], []))"
    by (rule any_invalid_True)
  then show "CmdSetDutyCycles ret as m = Inr (ret @ bytes_of kInvalidDutyCycle, m)"
    unfolding CmdSetDutyCycles_def p
    by (simp add: Let_def split_beta Printf_def)
qed

theorem set_duty_cycles_all_or_nothing_witness:
  "decimal_u32 (bytes_of ''50'') \<and> decimal_u32 (bytes_of ''150'') \<and>
   (\<exists>arg \<in> set (drop 1 [bytes_of ''SET_DUTY_CYCLES'', bytes_of ''50'', bytes_of ''150'']). 100 < digits_value arg) \<and>
   CmdSetDutyCycles [] [bytes_of ''SET_DUTY_CYCLES'', bytes_of ''50'', bytes_of ''150'']
     \<lparr>gDeviceState = \<lparr>dutyCycles = [250], userDutyCycles = [25], isPwmGenerated = True\<rparr>,
      ARR = 999, CNT = 0, pwm_dma = Some [250], PCLK1Freq = 42000000\<rparr> =
   Inr (bytes_of ''INVALID_DUTY_CYCLE'',
     \<lparr>gDeviceState = \<lparr>dutyCycles = [250], userDutyCycles = [25], isPwmGenerated = True\<rparr>,
      ARR = 999, CNT = 0, pwm_dma = Some [250], PCLK1Freq = 42000000\<rparr>)"
  using set_duty_cycles_all_or_nothing
      [of "[bytes_of ''SET_DUTY_CYCLES'', bytes_of ''50'', bytes_of ''150'']" "[]"
        "\<lparr>gDeviceState = \<lparr>dutyCycles = [250], userDutyCycles = [25], isPwmGenerated = True\<rparr>,
      ARR = 999, CNT = 0, pwm_dma = Some [250], PCLK1Freq = 42000000\<rparr>"]
  by (simp add: decimal_u32_def bytes_of_def is_digit_def digits_value_def kInvalidDutyCycle_def)

text \<open>
  C6, as stated, fails: the request \<open>SET_DUTY_CYCLES 50 4294967296\<close> contains a value
  outside 0--100, and the handler does not respond \<open>INVALID_DUTY_CYCLE\<close>:
  \<open>std::from_chars\<close> reports a value that does not fit \<open>std::uint32_t\<close> as an error and
  the handler leaves through its \<open>kInvalidArgument\<close> answer, before the range test
  (where the call of \<open>Printf\<close> with a \<open>std::string_view\<close> is undefined).
\<close>

theorem set_duty_cycles_out_of_range_counterexample:
  "digits_value (bytes_of ''4294967296'') = 4294967296 \<and>
   parse_params (drop 1 [bytes_of ''SET_DUTY_CYCLES'', bytes_of ''50'', bytes_of ''4294967296'']) [] = None \<and>
   CmdSetDutyCycles [] [bytes_of ''SET_DUTY_CYCLES'', bytes_of ''50'', bytes_of ''4294967296'']
     \<lparr>gDeviceState = \<lparr>dutyCycles = [250], userDutyCycles = [25], isPwmGenerated = True\<rparr>,
      ARR = 999, CNT = 0, pwm_dma = Some [250], PCLK1Freq = 42000000\<rparr> = Inl FormatMismatch \<and>
   CmdSetDutyCycles [] [bytes_of ''SET_DUTY_CYCLES'', bytes_of ''50'', bytes_of ''4294967296'']
     \<lparr>gDeviceState = \<lparr>dutyCycles = [250], userDutyCycles = [25], isPwmGenerated = True\<rparr>,
      ARR = 999, CNT = 0, pwm_dma = Some [250], PCLK1Freq = 42000000\<rparr> \<noteq>
   Inr (bytes_of kInvalidDutyCycle,
     \<lparr>gDeviceState = \<lparr>dutyCycles = [250], userDutyCycles = [25], isPwmGenerated = True\<rparr>,
      ARR = 999, CNT = 0, pwm_dma = Some [250], PCLK1Freq = 42000000\<rparr>)"
  by (simp add: CmdSetDutyCycles_def bytes_of_def from_chars_def is_digit_def digits_value_def
      Printf_string_view_def Let_def)

text \<open>
  An argument that is not such a number takes the handler to the undefined call, and
  nothing else does.
\<close>

lemma CmdSetDutyCycles_fault_iff:
  "(\<exists>f. CmdSetDutyCycles ret as m = Inl f) = (\<not> (\<forall>arg \<in> set (drop 1 as). decimal_u32 arg))"
proof (cases "\<forall>arg \<in> set (drop 1 as). decimal_u32 arg")
  case True
  then have "parse_params (drop 1 as) [] =
      Some ([] @ map (\<lambda>arg. of_nat (digits_value arg)) (drop 1 as))"
    by (rule parse_params_Some)
  then have "\<forall>f. CmdSetDutyCycles ret as m \<noteq> Inl f"
    unfolding CmdSetDutyCycles_def
    by (simp only:) (simp add: Let_def split_beta)
  with True show ?thesis by simp
next
  case False
  then have "parse_params (drop 1 as) [] = None"
    by (rule parse_params_None)
  then have "CmdSetDutyCycles ret as m = Inl FormatMismatch"
    unfolding CmdSetDutyCycles_def
    by (simp only:) (simp add: Printf_string_view_def)
  with False show ?thesis by simp
qed

section \<open>Checksum failures and responses\<close>

lemma decode_byte_error:
  "decode_byte d = Inl e \<Longrightarrow> e = UnexpectedEOF \<or> e = InvalidEscapeSequence \<or> e = InvalidByte"
  by (auto simp add: decode_byte_def split: if_splits option.splits)

lemma decode_bytes_not_crc: "fst (decode_bytes SIZE d out) \<noteq> CRC32MissMatch"
proof (induction SIZE d out rule: decode_bytes.induct)
  case (1 SIZE d out)
  show ?case
  proof (cases "length d \<noteq> 0")
    case False
    then show ?thesis by (subst decode_bytes.simps) simp
  next
    case True
    show ?thesis
    proof (cases "decode_byte d")
      case (Inl e)
      with True decode_byte_error [OF Inl] show ?thesis
        by (subst decode_bytes.simps) auto
    next
      case (Inr p)
      obtain x read where p: "p = (x, read)" by (cases p)
      from "1.IH" [OF True Inr [unfolded p] refl]
      show ?thesis
        using True Inr p by (subst decode_bytes.simps) simp
    qed
  qed
qed

lemma circular_decode_loop_not_crc:
  "circular_decode_loop b h cap idx decoded \<noteq> Inl CRC32MissMatch"
proof (induction b h cap idx decoded rule: circular_decode_loop.induct)
  case (1 b h cap idx decoded)
  show ?case
  proof (cases "idx \<noteq> h \<and> b ! idx \<noteq> END_FRAME_BYTE")
    case False
    then show ?thesis by (subst circular_decode_loop.simps) auto
  next
    case True
    show ?thesis
    proof (cases "decode_byte [b ! idx, b ! ((idx + 1) mod cap)]")
      case (Inl e)
      with True decode_byte_error [OF Inl] show ?thesis
        by (subst circular_decode_loop.simps) auto
    next
      case (Inr p)
      obtain x read where p: "p = (x, read)" by (cases p)
      show ?thesis
      proof (cases "push_back (FRAME_MAX_SIZE - 2) x decoded")
        case (Pair rej decoded')
        show ?thesis
        proof (cases rej)
          case None
          from True have c1: "idx \<noteq> h" and c2: "b ! idx \<noteq> END_FRAME_BYTE" by simp_all
          have "circular_decode_loop b h cap ((idx + read) mod cap) decoded' \<noteq> Inl CRC32MissMatch"
            using "1.IH" [OF c1 refl c2 Inr [unfolded p] refl, of rej decoded'] Pair None
            by simp
          then show ?thesis
            using True Inr p Pair None by (subst circular_decode_loop.simps) simp
        next
          case (Some a)
          then show ?thesis
            using True Inr p Pair by (subst circular_decode_loop.simps) simp
        qed
      qed
    qed
  qed
qed

lemma deserialize_from_decoded_short:
  "\<not> 4 \<le> length decoded \<Longrightarrow> fst (deserialize_from_decoded f0 decoded) = UnexpectedEOF"
  by (auto simp add: deserialize_from_decoded_def deserialize_u8_def deserialize_u16_def Let_def)

lemma deserialize_from_decoded_crc:
  assumes r: "deserialize_from_decoded f0 decoded = (CRC32MissMatch, f')"
  shows "f' = parsed_fields decoded"
proof -
  have len: "4 \<le> length decoded"
    using deserialize_from_decoded_short [of decoded f0] r by auto
  let ?n = "unat (from_be_bytes_u16 (take 2 (drop 2 decoded)))"
  let ?g = "f0\<lparr>sender := decoded ! 0, receiver := decoded ! 1,
             data := snd (push_slice FRAME_DATA_MAX_SIZE (take ?n (drop 4 decoded)) [])\<rparr>"
  have "deserialize_from_decoded f0 decoded =
     (if FRAME_DATA_MAX_SIZE < ?n then (DataTooBig, f0\<lparr>sender := decoded ! 0, receiver := decoded ! 1\<rparr>)
      else if length decoded \<le> 4 + ?n
        then (UnexpectedEOF, f0\<lparr>sender := decoded ! 0, receiver := decoded ! 1\<rparr>)
      else (case deserialize_u32 decoded (4 + ?n) of
          Inl err \<Rightarrow> (err, ?g)
        | Inr (crc, idx) \<Rightarrow>
            if idx \<noteq> length decoded then (ExpectedEOF, ?g)
            else if crc \<noteq> crc32 ?g then (CRC32MissMatch, ?g)
            else (DeserializeOk, ?g)))"
    by (simp only: deserialize_from_decoded_def deserialize_header [OF len] sum.case prod.case
        Let_def) (simp add: clear_def split: sum.split prod.split)
  with r have small: "?n \<le> FRAME_DATA_MAX_SIZE" and f': "f' = ?g"
    by (auto simp add: deserialize_u32_def split: if_splits)
  from small have "snd (push_slice FRAME_DATA_MAX_SIZE (take ?n (drop 4 decoded)) []) =
      take ?n (drop 4 decoded)"
    by (simp add: push_slice_def push_slice_loop_take min_def)
  then show ?thesis
    by (simp add: f' parsed_fields_def)
qed


text \<open>
  C9. Whenever either overload of \<open>Frame::deserialize_from\<close> answers
  \<open>CRC32MissMatch\<close>, the bytes between the delimiters were decoded without error and
  the frame returned is made of the sender, the receiver and the payload parsed from
  them: nothing of what the target frame held before is left.
\<close>

theorem crc_mismatch_overwrites_frame:
  "(deserialize_from f0 encoded = (CRC32MissMatch, f') \<longrightarrow>
      (\<exists>decoded. decode_bytes FRAME_MAX_SIZE (butlast (tl encoded)) [] = (DeserializeOk, decoded) \<and>
         f' = parsed_fields decoded)) \<and>
   (deserialize_from_circular f0 cb = (CRC32MissMatch, f') \<longrightarrow>
      (\<exists>idx decoded.
         circular_decode_loop (buf cb) ((if head cb \<noteq> 0 then head cb else getCapacity cb) - 1)
           (getCapacity cb) ((tail cb + 1) mod getCapacity cb) [] = Inr (idx, decoded) \<and>
         f' = parsed_fields decoded))"
proof (intro conjI impI)
  assume r: "deserialize_from f0 encoded = (CRC32MissMatch, f')"
  obtain err decoded where d: "decode_bytes FRAME_MAX_SIZE (butlast (tl encoded)) [] = (err, decoded)"
    by (cases "decode_bytes FRAME_MAX_SIZE (butlast (tl encoded)) []")
  have "err \<noteq> CRC32MissMatch"
    using decode_bytes_not_crc [of FRAME_MAX_SIZE "butlast (tl encoded)" "[]"] d by simp
  with r d have "err = DeserializeOk" and "deserialize_from_decoded f0 decoded = (CRC32MissMatch, f')"
    by (auto simp add: deserialize_from_def split: if_splits)
  with d show "\<exists>decoded. decode_bytes FRAME_MAX_SIZE (butlast (tl encoded)) [] = (DeserializeOk, decoded) \<and>
         f' = parsed_fields decoded"
    using deserialize_from_decoded_crc by blast
next
  assume r: "deserialize_from_circular f0 cb = (CRC32MissMatch, f')"
  let ?loop = "circular_decode_loop (buf cb) ((if head cb \<noteq> 0 then head cb else getCapacity cb) - 1)
           (getCapacity cb) ((tail cb + 1) mod getCapacity cb) []"
  have "?loop \<noteq> Inl CRC32MissMatch"
    by (rule circular_decode_loop_not_crc)
  with r obtain idx decoded where "?loop = Inr (idx, decoded)"
    and "deserialize_from_decoded f0 decoded = (CRC32MissMatch, f')"
    by (auto simp add: deserialize_from_circular_def Let_def split: if_splits sum.splits)
  then show "\<exists>idx decoded. ?loop = Inr (idx, decoded) \<and> f' = parsed_fields decoded"
    using deserialize_from_decoded_crc by blast
qed

theorem crc_mismatch_overwrites_frame_witness:
  "deserialize_from \<lparr>sender = 9, receiver = 9, data = [7, 7]\<rparr>
       [0x28, 1, 100, 0, 0, 0, 0, 0, 0, 0x29] =
     (CRC32MissMatch, \<lparr>sender = 1, receiver = 100, data = []\<rparr>) \<and>
   (\<exists>decoded. decode_bytes FRAME_MAX_SIZE (butlast (tl [0x28, 1, 100, 0, 0, 0, 0, 0, 0, 0x29])) [] =
       (DeserializeOk, decoded) \<and>
     \<lparr>sender = 1, receiver = 100, data = []\<rparr> = parsed_fields decoded) \<and>
   deserialize_from_circular \<lparr>sender = 9, receiver = 9, data = [7, 7]\<rparr>
       \<lparr>capacity = 16, buf = [0x28, 1, 100, 0, 0, 0, 0, 0, 0, 0x29, 0, 0, 0, 0, 0, 0],
        head = 10, tail = 0\<rparr> =
     (CRC32MissMatch, \<lparr>sender = 1, receiver = 100, data = []\<rparr>)"
proof -
  have a: "deserialize_from \<lparr>sender = 9, receiver = 9, data = [7, 7]\<rparr>
       [0x28, 1, 100, 0, 0, 0, 0, 0, 0, 0x29] =
     (CRC32MissMatch, \<lparr>sender = 1, receiver = 100, data = []\<rparr>)"
    by code_simp
  have b: "deserialize_from_circular \<lparr>sender = 9, receiver = 9, data = [7, 7]\<rparr>
       \<lparr>capacity = 16, buf = [0x28, 1, 100, 0, 0, 0, 0, 0, 0, 0x29, 0, 0, 0, 0, 0, 0],
        head = 10, tail = 0\<rparr> =
     (CRC32MissMatch, \<lparr>sender = 1, receiver = 100, data = []\<rparr>)"
    by code_simp
  show ?thesis
    using a b crc_mismatch_overwrites_frame
      [of "\<lparr>sender = 9, receiver = 9, data = [7, 7]\<rparr>" "[0x28, 1, 100, 0, 0, 0, 0, 0, 0, 0x29]"
        "\<lparr>sender = 1, receiver = 100, data = []\<rparr>"
        "\<lparr>capacity = 16, buf = [0x28, 1, 100, 0, 0, 0, 0, 0, 0, 0x29, 0, 0, 0, 0, 0, 0],
          head = 10, tail = 0\<rparr>"]
    by blast
qed

text \<open>
  Which commands can fault: only \<open>SET_FREQ\<close>, \<open>SET_DUTY_CYCLES\<close> and \<open>STATUS\<close>;
  \<open>STATUS\<close> does exactly when \<open>ARR + 1\<close> wraps to 0. The errors of the dispatcher itself
  are written with \<open>WRITE_EC\<close>, a \<open>std::copy\<close>, and are plain responses.
\<close>

lemma ExecuteCommand_fault_only:
  assumes "ExecuteCommand cmd ret m = Inl f"
  shows "args cmd ! 0 = bytes_of ''SET_FREQ'' \<or> args cmd ! 0 = bytes_of ''SET_DUTY_CYCLES'' \<or>
         args cmd ! 0 = bytes_of ''STATUS''"
proof (rule ccontr)
  assume n: "\<not> (args cmd ! 0 = bytes_of ''SET_FREQ'' \<or>
      args cmd ! 0 = bytes_of ''SET_DUTY_CYCLES'' \<or> args cmd ! 0 = bytes_of ''STATUS'')"
  then have "ExecuteCommand cmd ret m \<noteq> Inl f"
    by (auto simp add: ExecuteCommand_def kCommandHandlers_def Let_def CmdPwmOn_def CmdPwmOff_def)
  with assms show False by simp
qed

lemma SetFreq_not_a_number_faults:
  "ExecuteCommand \<lparr>args = [bytes_of ''SET_FREQ'', bytes_of ''abc'']\<rparr> ret m = Inl FormatMismatch"
  by (simp add: ExecuteCommand_def kCommandHandlers_def bytes_of_def CmdSetFreq_def from_chars_def
      is_digit_def Printf_string_view_def Let_def)

lemma CmdStatus_fault_iff: "(\<exists>f. CmdStatus ret as m = Inl f) = (ARR m = 0xFFFFFFFF)"
proof -
  have "(ARR m + 1 = 0) = (ARR m = - 1)"
    by (metis add.commute add_eq_0_iff2 eq_neg_iff_add_eq_0)
  moreover have "(- 1 :: u32) = 0xFFFFFFFF"
    by simp
  ultimately have "(ARR m + 1 = 0) = (ARR m = 0xFFFFFFFF)"
    by simp
  then show ?thesis
    by (auto simp add: CmdStatus_def udiv32_def Let_def)
qed

lemma SendData_sends_one:
  "SendData rcv d u =
     u @ [wire_format \<lparr>sender = LOCAL_ID, receiver = rcv, data = take FRAME_DATA_MAX_SIZE d\<rparr>]"
proof -
  let ?f = "\<lparr>sender = LOCAL_ID, receiver = rcv, data = take FRAME_DATA_MAX_SIZE d\<rparr>"
  have fr: "Frame_default\<lparr>sender := LOCAL_ID, receiver := rcv,
      data := snd (push_slice FRAME_DATA_MAX_SIZE d (data Frame_default))\<rparr> = ?f"
    by (simp add: Frame_default_def push_slice_def push_slice_loop_take)
  have len: "length (data ?f) \<le> FRAME_DATA_MAX_SIZE"
    by simp
  have "length (wire_format ?f) \<le> 2 * (length (data ?f) + 8) + 2"
    by (rule length_wire_format)
  also have "\<dots> \<le> FRAME_MAX_SIZE * 2"
    by (simp add: FRAME_DATA_MAX_SIZE_eq FRAME_MAX_SIZE_def)
  finally have "serialize_into (FRAME_MAX_SIZE * 2) ?f [] = (SerializeOk, wire_format ?f)"
    by (simp add: serialize_into_wire [OF len])
  then show ?thesis
    by (simp add: SendData_def Let_def fr)
qed

text \<open>
  C2, amended. For a frame handed to the body of the command loop: when its receiver
  is not \<open>LOCAL_ID\<close>, nothing is sent and the machine is unchanged; when its receiver
  is \<open>LOCAL_ID\<close> and its payload has no token, nothing is sent either; when its receiver
  is \<open>LOCAL_ID\<close>, its payload parses into a command and \<open>ExecuteCommand\<close> returns a
  response, exactly one frame is appended to what was sent, and that frame decodes to
  sender \<open>LOCAL_ID\<close>, receiver the sender of the request, and the response cut at
  \<open>FRAME_DATA_MAX_SIZE\<close> bytes. A handler that faults (a division by zero, an argument
  that is not a number) returns no response and is left out.
\<close>

theorem one_response_per_command:
  "(receiver f \<noteq> LOCAL_ID \<longrightarrow> HandleFrame f m u = Inr (m, u)) \<and>
   (receiver f = LOCAL_ID \<and> ParseCommands (data f) = None \<longrightarrow> HandleFrame f m u = Inr (m, u)) \<and>
   (receiver f = LOCAL_ID \<and> ParseCommands (data f) = Some cmd \<and>
    ExecuteCommand cmd [] m = Inr (ret, m') \<longrightarrow>
      (\<exists>resp. HandleFrame f m u = Inr (m', u @ [resp]) \<and>
         deserialize_from f0 resp =
           (DeserializeOk,
            \<lparr>sender = LOCAL_ID, receiver = sender f, data = take FRAME_DATA_MAX_SIZE ret\<rparr>)))"
proof (intro conjI impI)
  assume "receiver f = LOCAL_ID \<and> ParseCommands (data f) = Some cmd \<and>
    ExecuteCommand cmd [] m = Inr (ret, m')"
  then have "HandleFrame f m u = Inr (m', u @
      [wire_format \<lparr>sender = LOCAL_ID, receiver = sender f, data = take FRAME_DATA_MAX_SIZE ret\<rparr>])"
    by (simp add: HandleFrame_def SendData_sends_one)
  moreover have "deserialize_from f0
      (wire_format \<lparr>sender = LOCAL_ID, receiver = sender f, data = take FRAME_DATA_MAX_SIZE ret\<rparr>) =
      (DeserializeOk, \<lparr>sender = LOCAL_ID, receiver = sender f, data = take FRAME_DATA_MAX_SIZE ret\<rparr>)"
    by (rule deserialize_from_wire) simp
  ultimately show "\<exists>resp. HandleFrame f m u = Inr (m', u @ [resp]) \<and>
         deserialize_from f0 resp =
           (DeserializeOk,
            \<lparr>sender = LOCAL_ID, receiver = sender f, data = take FRAME_DATA_MAX_SIZE ret\<rparr>)"
    by blast
qed (simp_all add: HandleFrame_def)

text \<open>
  C2, as stated, fails: a frame that deserializes successfully, addressed to
  \<open>LOCAL_ID\<close>, with an empty payload (no token) is answered by no frame at all, where the
  claim has one \<open>UNKNOWN_COMMAND\<close> response: \<open>HandlePendingCommands\<close> calls
  \<open>ExecuteCommand\<close> and \<open>SendData\<close> only when \<open>ParseCommands\<close> returned a command.
\<close>

theorem empty_payload_no_response_counterexample:
  "receiver \<lparr>sender = 7, receiver = 100, data = []\<rparr> = LOCAL_ID \<and>
   ParseCommands (data \<lparr>sender = 7, receiver = 100, data = []\<rparr>) = None \<and>
   HandleFrame \<lparr>sender = 7, receiver = 100, data = []\<rparr>
      \<lparr>gDeviceState = \<lparr>dutyCycles = [250], userDutyCycles = [25], isPwmGenerated = False\<rparr>,
       ARR = 999, CNT = 0, pwm_dma = None, PCLK1Freq = 42000000\<rparr> [] =
    Inr (\<lparr>gDeviceState = \<lparr>dutyCycles = [250], userDutyCycles = [25], isPwmGenerated = False\<rparr>,
       ARR = 999, CNT = 0, pwm_dma = None, PCLK1Freq = 42000000\<rparr>, []) \<and>
   deserialize_from Frame_default (wire_format \<lparr>sender = 7, receiver = 100, data = []\<rparr>) =
     (DeserializeOk, \<lparr>sender = 7, receiver = 100, data = []\<rparr>)"
  by (simp add: HandleFrame_def LOCAL_ID_def ParseCommands_def Split.simps deserialize_from_wire)


theorem one_response_per_command_witness:
  "receiver \<lparr>sender = 7, receiver = 5, data = bytes_of ''ON''\<rparr> \<noteq> LOCAL_ID \<and>
   HandleFrame \<lparr>sender = 7, receiver = 5, data = bytes_of ''ON''\<rparr>
      \<lparr>gDeviceState = \<lparr>dutyCycles = [250], userDutyCycles = [25], isPwmGenerated = False\<rparr>,
       ARR = 999, CNT = 0, pwm_dma = None, PCLK1Freq = 42000000\<rparr> [] =
     Inr (\<lparr>gDeviceState = \<lparr>dutyCycles = [250], userDutyCycles = [25], isPwmGenerated = False\<rparr>,
       ARR = 999, CNT = 0, pwm_dma = None, PCLK1Freq = 42000000\<rparr>, []) \<and>
   receiver \<lparr>sender = 7, receiver = 100, data = bytes_of ''  ''\<rparr> = LOCAL_ID \<and>
   ParseCommands (data \<lparr>sender = 7, receiver = 100, data = bytes_of ''  ''\<rparr>) = None \<and>
   HandleFrame \<lparr>sender = 7, receiver = 100, data = bytes_of ''  ''\<rparr>
      \<lparr>gDeviceState = \<lparr>dutyCycles = [250], userDutyCycles = [25], isPwmGenerated = False\<rparr>,
       ARR = 999, CNT = 0, pwm_dma = None, PCLK1Freq = 42000000\<rparr> [] =
     Inr (\<lparr>gDeviceState = \<lparr>dutyCycles = [250], userDutyCycles = [25], isPwmGenerated = False\<rparr>,
       ARR = 999, CNT = 0, pwm_dma = None, PCLK1Freq = 42000000\<rparr>, []) \<and>
   receiver \<lparr>sender = 7, receiver = 100, data = bytes_of ''ON''\<rparr> = LOCAL_ID \<and>
   ParseCommands (data \<lparr>sender = 7, receiver = 100, data = bytes_of ''ON''\<rparr>) =
     Some \<lparr>args = [bytes_of ''ON'']\<rparr> \<and>
   ExecuteCommand \<lparr>args = [bytes_of ''ON'']\<rparr> []
      \<lparr>gDeviceState = \<lparr>dutyCycles = [250], userDutyCycles = [25], isPwmGenerated = False\<rparr>,
       ARR = 999, CNT = 0, pwm_dma = None, PCLK1Freq = 42000000\<rparr> =
     Inr (bytes_of ''PWM_ON'',
      \<lparr>gDeviceState = \<lparr>dutyCycles = [250], userDutyCycles = [25], isPwmGenerated = True\<rparr>,
       ARR = 999, CNT = 0, pwm_dma = Some [250], PCLK1Freq = 42000000\<rparr>) \<and>
   (\<exists>resp. HandleFrame \<lparr>sender = 7, receiver = 100, data = bytes_of ''ON''\<rparr>
      \<lparr>gDeviceState = \<lparr>dutyCycles = [250], userDutyCycles = [25], isPwmGenerated = False\<rparr>,
       ARR = 999, CNT = 0, pwm_dma = None, PCLK1Freq = 42000000\<rparr> [] =
     Inr (\<lparr>gDeviceState = \<lparr>dutyCycles = [250], userDutyCycles = [25], isPwmGenerated = True\<rparr>,
       ARR = 999, CNT = 0, pwm_dma = Some [250], PCLK1Freq = 42000000\<rparr>, [] @ [resp]) \<and>
     deserialize_from Frame_default resp =
       (DeserializeOk, \<lparr>sender = LOCAL_ID, receiver = 7,
                         data = take FRAME_DATA_MAX_SIZE (bytes_of ''PWM_ON'')\<rparr>))"
proof -
  let ?m = "\<lparr>gDeviceState = \<lparr>dutyCycles = [250], userDutyCycles = [25], isPwmGenerated = False\<rparr>,
       ARR = 999, CNT = 0, pwm_dma = None, PCLK1Freq = 42000000\<rparr>"
  let ?m' = "\<lparr>gDeviceState = \<lparr>dutyCycles = [250], userDutyCycles = [25], isPwmGenerated = True\<rparr>,
       ARR = 999, CNT = 0, pwm_dma = Some [250], PCLK1Freq = 42000000\<rparr>"
  have p_on: "ParseCommands (bytes_of ''ON'') = Some \<lparr>args = [bytes_of ''ON'']\<rparr>"
    by (simp add: ParseCommands_def Split.simps bytes_of_def)
  have p_blank: "ParseCommands (bytes_of ''  '') = None"
    by (simp add: ParseCommands_def Split.simps bytes_of_def)
  have ex: "ExecuteCommand \<lparr>args = [bytes_of ''ON'']\<rparr> [] ?m = Inr (bytes_of ''PWM_ON'', ?m')"
    by (simp add: ExecuteCommand_def kCommandHandlers_def bytes_of_def CmdPwmOn_def StartPWM_def
        Printf_def kPwmOn_def Let_def)
  have id: "LOCAL_ID = 100"
    by (simp add: LOCAL_ID_def)
  show ?thesis
    using one_response_per_command
        [where f = "\<lparr>sender = 7, receiver = 5, data = bytes_of ''ON''\<rparr>" and m = ?m and u = "[]"]
      one_response_per_command
        [where f = "\<lparr>sender = 7, receiver = 100, data = bytes_of ''  ''\<rparr>" and m = ?m and u = "[]"]
      one_response_per_command
        [where f = "\<lparr>sender = 7, receiver = 100, data = bytes_of ''ON''\<rparr>" and m = ?m and u = "[]"
          and cmd = "\<lparr>args = [bytes_of ''ON'']\<rparr>" and ret = "bytes_of ''PWM_ON''" and m' = ?m'
          and ?f0.0 = Frame_default]
    by (simp add: p_on p_blank ex id)
qed

text \<open>
  A payload has no token exactly when it is made of spaces only (the empty payload
  included): this is when \<open>ParseCommands\<close> answers \<open>None\<close>.
\<close>

lemma Split_no_token:
  fixes p :: ParsedCommand
  shows "(args (Split d delim
      (\<lambda>arg parsed. if length arg > 0 then parsed\<lparr>args := args parsed @ [arg]\<rparr> else parsed) p) = []) =
   (args p = [] \<and> (\<forall>c \<in> set d. c = delim))"
proof (induction d delim
    "\<lambda>arg parsed. if length (arg :: bytes) > 0
       then parsed\<lparr>args := args parsed @ [arg]\<rparr> else (parsed :: ParsedCommand)" p
    rule: Split.induct)
  case (1 s delim st)
  let ?cb = "\<lambda>arg parsed. if length (arg :: bytes) > 0
       then parsed\<lparr>args := args parsed @ [arg]\<rparr> else (parsed :: ParsedCommand)"
  define tok where "tok = takeWhile (\<lambda>x. x \<noteq> delim) s"
  define found where "found = dropWhile (\<lambda>x. x \<noteq> delim) s"
  have s: "s = tok @ found"
    by (simp add: tok_def found_def)
  have tok: "\<forall>c \<in> set tok. c \<noteq> delim"
    unfolding tok_def by (auto dest: set_takeWhileD)
  then have tok_all: "(\<forall>c \<in> set tok. c = delim) = (tok = [])"
    by (cases tok) auto
  have cb: "(args (?cb t q) = []) = (args q = [] \<and> t = [])" for t q
    by simp
  have unfold: "Split s delim ?cb st =
      (if found = [] then ?cb tok st else Split (tl found) delim ?cb (?cb tok st))"
    unfolding tok_def found_def
    apply (subst Split.simps)
    apply (simp only: Let_def)
    done
  show ?case
  proof (cases "found = []")
    case True
    then have e: "(\<forall>c \<in> set s. c = delim) = (tok = [])"
      by (simp add: s tok_all)
    from True have r: "Split s delim ?cb st = ?cb tok st"
      by (simp only: unfold if_True simp_thms)
    show ?thesis
      by (simp only: r cb e)
  next
    case False
    have "found \<noteq> [] \<Longrightarrow> hd found = delim"
      unfolding found_def using hd_dropWhile [of "\<lambda>x. x \<noteq> delim" s] by simp
    with False obtain rest where fnd: "found = delim # rest"
      by (cases found) auto
    have IH: "(args (Split (tl found) delim ?cb (?cb tok st)) = []) =
        (args (?cb tok st) = [] \<and> (\<forall>c \<in> set (tl found). c = delim))"
      using "1.hyps" [OF refl refl] False unfolding tok_def found_def by blast
    have e: "(\<forall>c \<in> set s. c = delim) = (tok = [] \<and> (\<forall>c \<in> set (tl found). c = delim))"
      using tok_all by (auto simp add: s fnd)
    from False have r: "Split s delim ?cb st = Split (tl found) delim ?cb (?cb tok st)"
      by (simp only: unfold if_False simp_thms)
    show ?thesis
      by (simp only: r IH cb e) blast
  qed
qed

lemma ParseCommands_None_iff: "(ParseCommands d = None) = (\<forall>c \<in> set d. c = 0x20)"
  using Split_no_token [of d "0x20" "\<lparr>args = []\<rparr>"]
  by (simp add: ParseCommands_def Let_def)

section \<open>Frame extraction\<close>

text \<open>
  With a capacity above 0 and both indices below it, each scanning loop of \<open>GetFrame\<close>
  comes to an end (every turn brings the index one place nearer to \<open>head\<close>), and so
  \<open>GetFrame\<close> returns.
\<close>

lemma ring_distance_step:
  fixes cap h t :: nat
  assumes "0 < cap" "h < cap" "t < cap" "t \<noteq> h"
  shows "(h + cap - Suc t mod cap) mod cap < (h + cap - t) mod cap"
proof (cases "Suc t = cap")
  case True
  then have "Suc t mod cap = 0" by simp
  moreover have "h + cap - t = Suc h" "Suc h < cap"
    using True assms by arith+
  then have "(h + cap - t) mod cap = Suc h"
    by simp
  ultimately show ?thesis using assms by simp
next
  case False
  with assms have n: "Suc t mod cap = Suc t" by simp
  show ?thesis
  proof (cases "t < h")
    case True
    then have "h + cap - Suc t = (h - Suc t) + cap" "h + cap - t = (h - t) + cap"
      by arith+
    then have "(h + cap - Suc t) mod cap = (h - Suc t) mod cap"
      "(h + cap - t) mod cap = (h - t) mod cap"
      by (simp_all only: mod_add_self2)
    moreover have "h - Suc t < cap" "h - t < cap"
      using assms by arith+
    ultimately have "(h + cap - Suc t) mod cap = h - Suc t" "(h + cap - t) mod cap = h - t"
      by simp_all
    with True show ?thesis by (simp add: n)
  next
    case False
    with assms have "h < t" by simp
    with assms \<open>Suc t \<noteq> cap\<close> have "h + cap - Suc t < cap" "h + cap - t < cap"
      by arith+
    then have "(h + cap - Suc t) mod cap = h + cap - Suc t"
      "(h + cap - t) mod cap = h + cap - t"
      by simp_all
    with assms \<open>h < t\<close> show ?thesis by (simp add: n)
  qed
qed

lemma skip_to_begin_returns:
  assumes "0 < cap" "h < cap" "t < cap"
  shows "\<exists>t'. skip_to_begin b h cap t = Some t' \<and> t' < cap"
  using assms(3)
proof (induction "(h + cap - t) mod cap" arbitrary: t rule: less_induct)
  case less
  show ?case
  proof (cases "b ! t \<noteq> BEGIN_FRAME_BYTE \<and> t \<noteq> h")
    case False
    then have "skip_to_begin b h cap t = Some t"
      by (subst skip_to_begin.simps) auto
    with less.prems show ?thesis by simp
  next
    case True
    have "(t + 1) mod cap < cap" using assms(1) by simp
    moreover have "(h + cap - (t + 1) mod cap) mod cap < (h + cap - t) mod cap"
      using ring_distance_step [of cap h t] assms(1,2) less.prems True by simp
    ultimately obtain t' where "skip_to_begin b h cap ((t + 1) mod cap) = Some t'" "t' < cap"
      using less.hyps by blast
    moreover have "skip_to_begin b h cap t = skip_to_begin b h cap ((t + 1) mod cap)"
      using True by (subst skip_to_begin.simps) simp
    ultimately show ?thesis by simp
  qed
qed

lemma scan_for_end_returns:
  assumes "0 < cap" "h < cap" "i < cap"
  shows "\<exists>r. scan_for_end b h cap i = Some r"
  using assms(3)
proof (induction "(h + cap - i) mod cap" arbitrary: i rule: less_induct)
  case less
  show ?case
  proof (cases "i \<noteq> h \<and> b ! i \<noteq> END_FRAME_BYTE \<and> b ! i \<noteq> BEGIN_FRAME_BYTE")
    case False
    then show ?thesis
      by (subst scan_for_end.simps) auto
  next
    case True
    have "(i + 1) mod cap < cap" using assms(1) by simp
    moreover have "(h + cap - (i + 1) mod cap) mod cap < (h + cap - i) mod cap"
      using ring_distance_step [of cap h i] assms(1,2) less.prems True by simp
    ultimately obtain r where "scan_for_end b h cap ((i + 1) mod cap) = Some r"
      using less.hyps by blast
    moreover have "scan_for_end b h cap i = scan_for_end b h cap ((i + 1) mod cap)"
      using True by (subst scan_for_end.simps) simp
    ultimately show ?thesis by simp
  qed
qed

lemma GetFrame_returns:
  assumes "0 < capacity cb" "head cb < capacity cb" "tail cb < capacity cb"
  shows "\<exists>r. GetFrame cb = Some r"
proof -
  obtain t where t: "skip_to_begin (buf cb) (head cb) (capacity cb) (tail cb) = Some t" "t < capacity cb"
    using skip_to_begin_returns [OF assms] by blast
  have "(t + 1) mod capacity cb < capacity cb"
    using assms(1) by simp
  then obtain r where "scan_for_end (buf cb) (head cb) (capacity cb) ((t + 1) mod capacity cb) = Some r"
    using scan_for_end_returns [OF assms(1,2)] by blast
  then show ?thesis
    by (auto simp add: GetFrame_def getCapacity_def t Let_def split: sum.splits prod.splits)
qed

lemma skip_to_begin_at_begin:
  "b ! t = BEGIN_FRAME_BYTE \<Longrightarrow> skip_to_begin b h cap t = Some t"
  by (subst skip_to_begin.simps) simp

lemma scan_for_end_finds_begin:
  assumes "\<forall>j<k. (i + j) mod cap \<noteq> h \<and> b ! ((i + j) mod cap) \<noteq> END_FRAME_BYTE \<and>
                 b ! ((i + j) mod cap) \<noteq> BEGIN_FRAME_BYTE"
    and "(i + k) mod cap \<noteq> h"
    and "b ! ((i + k) mod cap) = BEGIN_FRAME_BYTE"
  shows "scan_for_end b h cap (i mod cap) = Some (Inl ((i + k) mod cap))"
  using assms
proof (induction k arbitrary: i)
  case 0
  then show ?case
    by (subst scan_for_end.simps) (simp add: BEGIN_FRAME_BYTE_def END_FRAME_BYTE_def)
next
  case (Suc k)
  from Suc.prems(1) have here: "i mod cap \<noteq> h" "b ! (i mod cap) \<noteq> END_FRAME_BYTE"
    "b ! (i mod cap) \<noteq> BEGIN_FRAME_BYTE"
    by force+
  have "\<forall>j<k. (Suc i + j) mod cap \<noteq> h \<and> b ! ((Suc i + j) mod cap) \<noteq> END_FRAME_BYTE \<and>
                 b ! ((Suc i + j) mod cap) \<noteq> BEGIN_FRAME_BYTE"
    using Suc.prems(1) by (metis Suc_less_eq add_Suc_shift)
  moreover have "(Suc i + k) mod cap \<noteq> h" "b ! ((Suc i + k) mod cap) = BEGIN_FRAME_BYTE"
    using Suc.prems(2,3) by simp_all
  ultimately have "scan_for_end b h cap (Suc i mod cap) = Some (Inl ((Suc i + k) mod cap))"
    by (rule Suc.IH)
  moreover have "(i mod cap + 1) mod cap = Suc i mod cap"
    by (simp add: mod_Suc_eq)
  ultimately show ?case
    using here by (subst scan_for_end.simps) simp
qed

text \<open>
  C7. Let the first loop of \<open>GetFrame\<close> leave the cursor at index \<open>t\<close>, on a
  \<open>BEGIN_FRAME_BYTE\<close> before \<open>head\<close>. When, going round the ring from \<open>t + 1\<close>, the
  first delimiter met before \<open>head\<close> is another \<open>BEGIN_FRAME_BYTE\<close>, \<open>k\<close> places after
  \<open>t\<close>, then \<open>GetFrame\<close> returns no frame and leaves \<open>tail\<close> on that newer
  \<open>BEGIN_FRAME_BYTE\<close>; \<open>head\<close> and the bytes of the buffer are untouched, and no error is
  reported. (The extractor compares raw bytes: in an encoded stream every raw
  \<open>BEGIN_FRAME_BYTE\<close> is an unescaped one.)
\<close>

theorem GetFrame_newer_begin:
  assumes "skip_to_begin (buf cb) (head cb) (capacity cb) (tail cb) = Some t"
    and "buf cb ! t = BEGIN_FRAME_BYTE"
    and "t \<noteq> head cb"
    and "0 < k"
    and "\<forall>j. 0 < j \<and> j < k \<longrightarrow>
           (t + j) mod capacity cb \<noteq> head cb \<and>
           buf cb ! ((t + j) mod capacity cb) \<noteq> END_FRAME_BYTE \<and>
           buf cb ! ((t + j) mod capacity cb) \<noteq> BEGIN_FRAME_BYTE"
    and "(t + k) mod capacity cb \<noteq> head cb"
    and "buf cb ! ((t + k) mod capacity cb) = BEGIN_FRAME_BYTE"
  shows "GetFrame cb = Some (None, cb\<lparr>tail := (t + k) mod capacity cb\<rparr>)"
proof -
  from assms(4) obtain k' where k: "k = Suc k'"
    by (cases k) simp_all
  have "\<forall>j<k'. (Suc t + j) mod capacity cb \<noteq> head cb \<and>
      buf cb ! ((Suc t + j) mod capacity cb) \<noteq> END_FRAME_BYTE \<and>
      buf cb ! ((Suc t + j) mod capacity cb) \<noteq> BEGIN_FRAME_BYTE"
  proof (intro allI impI)
    fix j assume "j < k'"
    then have "0 < Suc j \<and> Suc j < k" by (simp add: k)
    with assms(5) show "(Suc t + j) mod capacity cb \<noteq> head cb \<and>
      buf cb ! ((Suc t + j) mod capacity cb) \<noteq> END_FRAME_BYTE \<and>
      buf cb ! ((Suc t + j) mod capacity cb) \<noteq> BEGIN_FRAME_BYTE"
      by (metis add_Suc_shift)
  qed
  moreover have "(Suc t + k') mod capacity cb \<noteq> head cb"
    "buf cb ! ((Suc t + k') mod capacity cb) = BEGIN_FRAME_BYTE"
    using assms(6,7) by (simp_all add: k)
  ultimately have "scan_for_end (buf cb) (head cb) (capacity cb) (Suc t mod capacity cb) =
      Some (Inl ((Suc t + k') mod capacity cb))"
    by (rule scan_for_end_finds_begin)
  then have scan: "scan_for_end (buf cb) (head cb) (capacity cb) (Suc t mod capacity cb) =
      Some (Inl ((t + k) mod capacity cb))"
    by (simp add: k)
  show ?thesis
    using assms(3)
    by (simp add: GetFrame_def getCapacity_def assms(1) scan Let_def)
qed

theorem GetFrame_newer_begin_witness:
  "skip_to_begin (buf \<lparr>capacity = 8, buf = [0x41, 0x28, 1, 2, 0x28, 3, 0, 0], head = 6, tail = 0\<rparr>)
      (head \<lparr>capacity = 8, buf = [0x41, 0x28, 1, 2, 0x28, 3, 0, 0], head = 6, tail = 0\<rparr>)
      (capacity \<lparr>capacity = 8, buf = [0x41, 0x28, 1, 2, 0x28, 3, 0, 0], head = 6, tail = 0\<rparr>)
      (tail \<lparr>capacity = 8, buf = [0x41, 0x28, 1, 2, 0x28, 3, 0, 0], head = 6, tail = 0\<rparr>) = Some 1 \<and>
   buf \<lparr>capacity = 8, buf = [0x41, 0x28, 1, 2, 0x28, 3, 0, 0], head = 6, tail = 0\<rparr> ! 1 = BEGIN_FRAME_BYTE \<and>
   buf \<lparr>capacity = 8, buf = [0x41, 0x28, 1, 2, 0x28, 3, 0, 0], head = 6, tail = 0\<rparr> ! ((1 + 3) mod 8) = BEGIN_FRAME_BYTE \<and>
   GetFrame \<lparr>capacity = 8, buf = [0x41, 0x28, 1, 2, 0x28, 3, 0, 0], head = 6, tail = 0\<rparr> =
     Some (None, \<lparr>capacity = 8, buf = [0x41, 0x28, 1, 2, 0x28, 3, 0, 0], head = 6, tail = 4\<rparr>)"
proof -
  let ?cb = "\<lparr>capacity = 8, buf = [0x41, 0x28, 1, 2, 0x28, 3, 0, 0 :: u8], head = 6, tail = 0\<rparr>"
  have skip: "skip_to_begin (buf ?cb) (head ?cb) (capacity ?cb) (tail ?cb) = Some 1"
    by (simp add: skip_to_begin.simps BEGIN_FRAME_BYTE_def)
  have mid: "\<forall>j. 0 < j \<and> j < 3 \<longrightarrow>
           (1 + j) mod capacity ?cb \<noteq> head ?cb \<and>
           buf ?cb ! ((1 + j) mod capacity ?cb) \<noteq> END_FRAME_BYTE \<and>
           buf ?cb ! ((1 + j) mod capacity ?cb) \<noteq> BEGIN_FRAME_BYTE"
  proof (intro allI impI)
    fix j :: nat assume "0 < j \<and> j < 3"
    then have "j = 1 \<or> j = 2" by arith
    then show "(1 + j) mod capacity ?cb \<noteq> head ?cb \<and>
           buf ?cb ! ((1 + j) mod capacity ?cb) \<noteq> END_FRAME_BYTE \<and>
           buf ?cb ! ((1 + j) mod capacity ?cb) \<noteq> BEGIN_FRAME_BYTE"
      by (auto simp add: BEGIN_FRAME_BYTE_def END_FRAME_BYTE_def)
  qed
  have "GetFrame ?cb = Some (None, ?cb\<lparr>tail := (1 + 3) mod capacity ?cb\<rparr>)"
    using skip mid
    by (intro GetFrame_newer_begin [where t = 1 and k = 3])
       (simp_all add: BEGIN_FRAME_BYTE_def)
  with skip show ?thesis by (simp add: BEGIN_FRAME_BYTE_def)
qed

text \<open>
  The loop of \<open>HandlePendingCommands\<close> ends when \<open>GetFrame\<close> has no frame, and
  otherwise goes on from the state its body leaves.
\<close>

lemma HandlePendingCommands_done:
  "GetFrame (gRxBuffer s) = Some (None, cb) \<Longrightarrow>
   HandlePendingCommands s = Some (Inr (s\<lparr>gRxBuffer := cb\<rparr>))"
  by (subst HandlePendingCommands.simps) simp

lemma HandlePendingCommands_step:
  "GetFrame (gRxBuffer s) = Some (Some frame, cb) \<Longrightarrow>
   HandleFrame frame (machine s) (uart s) = Inr (m, u) \<Longrightarrow>
   HandlePendingCommands s = HandlePendingCommands (s\<lparr>gRxBuffer := cb, machine := m, uart := u\<rparr>)"
  by (subst HandlePendingCommands.simps) simp

end
